theory Spec2Isabelle
  imports Complex_Main
begin

section \<open>Data model (types.ts)\<close>

text \<open>
  The two interfaces of the client. An optional field (\<open>id?\<close>, \<open>questions?\<close>) is an
  \<open>option\<close>; \<open>id\<close> is renamed because HOL has a constant of that name. A JavaScript
  \<open>number\<close> that holds seconds, an index or a score is an \<open>int\<close>; the quotient and the
  product of the scoring formula are rounded to double precision as JavaScript rounds
  them (see the section on double precision below), and sums of integers are exact, as
  they are for doubles below \<open>2^53\<close>.
  \<open>correct_option\<close> is kept as a string, as it arrives from JSON and as
  \<open>handleAnswer\<close> compares it.
\<close>

record Question =
  q_id :: "int option"
  question_text :: string
  option_a :: string
  option_b :: string
  option_c :: string
  option_d :: string
  correct_option :: string
  time_limit :: int

record Quiz =
  quiz_id :: int
  title :: string
  description :: string
  topic :: string
  created_at :: string
  questions :: "Question list option"

text \<open>
  The state of the \<open>QuizPlayer\<close> component: one field per \<open>useState\<close> cell, in the
  order of the source. \<open>quiz\<close> is \<open>None\<close> until the fetch has answered.
\<close>

record session =
  quiz :: "Quiz option"
  currentQuestionIdx :: int
  score :: int
  timeLeft :: int
  selectedAnswer :: "string option"
  showResult :: bool
  isGameOver :: bool

datatype error = TypeError

text \<open>The state of a freshly mounted player, before and after the quiz has loaded.\<close>

definition initial :: "Quiz option \<Rightarrow> session" where
  "initial qz = \<lparr>quiz = qz, currentQuestionIdx = - 1, score = 0, timeLeft = 0,
     selectedAnswer = None, showResult = False, isGameOver = False\<rparr>"

section \<open>JavaScript helpers\<close>

text \<open>\<open>xs[i]\<close>: \<open>undefined\<close> (here \<open>None\<close>) outside the array.\<close>

definition js_index :: "'a list \<Rightarrow> int \<Rightarrow> 'a option" where
  "js_index xs i = (if 0 \<le> i \<and> i < int (length xs) then Some (xs ! nat i) else None)"

text \<open>\<open>quiz?.questions?.[i]\<close>\<close>

definition question_at :: "session \<Rightarrow> int \<Rightarrow> Question option" where
  "question_at s i =
     (case quiz s of
        None \<Rightarrow> None
      | Some qz \<Rightarrow> (case questions qz of None \<Rightarrow> None | Some qs \<Rightarrow> js_index qs i))"

text \<open>\<open>q?.time_limit || 20\<close>: \<open>undefined\<close> and \<open>0\<close> are falsy, every other number is kept.\<close>

definition time_limit_or_20 :: "Question option \<Rightarrow> int" where
  "time_limit_or_20 q =
     (case q of None \<Rightarrow> 20 | Some x \<Rightarrow> if time_limit x = 0 then 20 else time_limit x)"

text \<open>
  \<open>option === currentQuestion?.correct_option\<close>: the left side is a string or \<open>null\<close>,
  the right side a string or \<open>undefined\<close>; \<open>null === undefined\<close> is false.
\<close>

definition strict_eq :: "string option \<Rightarrow> string option \<Rightarrow> bool" where
  "strict_eq a b = (case a of None \<Rightarrow> False | Some x \<Rightarrow> (case b of None \<Rightarrow> False | Some y \<Rightarrow> x = y))"

text \<open>\<open>Math.round\<close>: the nearest integer, a half rounded towards plus infinity.\<close>

definition Math_round :: "real \<Rightarrow> int" where
  "Math_round x = \<lfloor>x + 1 / 2\<rfloor>"

section \<open>Double precision\<close>

text \<open>
  A JavaScript number is an IEEE 754 binary64 value, and \<open>/\<close> and \<open>*\<close> return the
  double nearest to the exact result, a tie going to the even significand. A double
  is kept here as the real number it denotes.

  \<open>binade x\<close> is the exponent \<open>e\<close> with \<open>2^e \<le> x < 2^(e+1)\<close> of a positive \<open>x\<close>. The
  doubles of that binade are the multiples of \<open>2^(e-52)\<close> (53 significant bits), and
  below \<open>2^(-1022)\<close> the multiples of \<open>2^(-1074)\<close> (subnormal numbers). Overflow to
  \<open>Infinity\<close>, at \<open>2^1024\<close>, is not modelled: the quotient of two integers below
  \<open>2^53\<close> and its thousandfold stay far below it.
\<close>

definition round_half_even :: "real \<Rightarrow> int" where
  "round_half_even x =
     (let f = \<lfloor>x\<rfloor>; r = x - of_int f
      in if r < 1 / 2 then f
         else if 1 / 2 < r then f + 1
         else if even f then f else f + 1)"

function binade :: "real \<Rightarrow> int" where
  "binade x =
     (if x \<le> 0 then 0
      else if x < 1 then binade (2 * x) - 1
      else if 2 \<le> x then binade (x / 2) + 1
      else 0)"
  by pat_completeness auto
termination
proof (relation "measure (\<lambda>x. nat (2 * \<lceil>1 / x\<rceil> + \<lceil>x\<rceil>))")
  show "wf (measure (\<lambda>x. nat (2 * \<lceil>1 / x\<rceil> + \<lceil>x\<rceil>)))" by simp
next
  fix x :: real
  assume "\<not> x \<le> 0" and "x < 1"
  then have x: "0 < x" "x < 1" by simp_all
  have c1: "\<lceil>x\<rceil> = 1" using x by (simp add: ceiling_eq_iff)
  have less: "2 * \<lceil>1 / (2 * x)\<rceil> + \<lceil>2 * x\<rceil> < 2 * \<lceil>1 / x\<rceil> + \<lceil>x\<rceil>"
  proof (cases "x \<le> 1 / 2")
    case True
    then have c2: "\<lceil>2 * x\<rceil> = 1" using x by (simp add: ceiling_eq_iff)
    have "1 / (2 * x) \<le> 1 / x - 1"
      using x True by (simp add: field_simps)
    then have "\<lceil>1 / (2 * x)\<rceil> \<le> \<lceil>1 / x - 1\<rceil>" by (rule ceiling_mono)
    then have "\<lceil>1 / (2 * x)\<rceil> \<le> \<lceil>1 / x\<rceil> - 1" by simp
    then show ?thesis using c1 c2 by simp
  next
    case False
    then have c2: "\<lceil>2 * x\<rceil> = 2" using x by (simp add: ceiling_eq_iff)
    have c3: "\<lceil>1 / x\<rceil> = 2" using x False by (simp add: ceiling_eq_iff field_simps)
    have c4: "\<lceil>1 / (2 * x)\<rceil> = 1" using x False by (simp add: ceiling_eq_iff field_simps)
    show ?thesis using c1 c2 c3 c4 by simp
  qed
  have "0 < 1 / x" using x by simp
  then have "0 < \<lceil>1 / x\<rceil>" by (simp only: zero_less_ceiling)
  then have "0 < 2 * \<lceil>1 / x\<rceil> + \<lceil>x\<rceil>"
    using c1 by linarith
  with less show "(2 * x, x) \<in> measure (\<lambda>x. nat (2 * \<lceil>1 / x\<rceil> + \<lceil>x\<rceil>))"
    by simp
next
  fix x :: real
  assume "\<not> x \<le> 0" and "\<not> x < 1" and two: "2 \<le> x"
  have c1: "\<lceil>1 / (x / 2)\<rceil> = 1" using two by (simp add: ceiling_eq_iff field_simps)
  have c2: "\<lceil>1 / x\<rceil> = 1" using two by (simp add: ceiling_eq_iff field_simps)
  have "x / 2 \<le> x - 1" using two by simp
  then have "\<lceil>x / 2\<rceil> \<le> \<lceil>x - 1\<rceil>" by (rule ceiling_mono)
  then have c3: "\<lceil>x / 2\<rceil> \<le> \<lceil>x\<rceil> - 1" by simp
  have "0 < x" using two by simp
  then have c4: "0 < \<lceil>x\<rceil>" by (simp only: zero_less_ceiling)
  have "2 * \<lceil>1 / (x / 2)\<rceil> + \<lceil>x / 2\<rceil> < 2 * \<lceil>1 / x\<rceil> + \<lceil>x\<rceil>"
    and "0 < 2 * \<lceil>1 / x\<rceil> + \<lceil>x\<rceil>"
    using c1 c2 c3 c4 by linarith+
  then show "(x / 2, x) \<in> measure (\<lambda>x. nat (2 * \<lceil>1 / x\<rceil> + \<lceil>x\<rceil>))"
    by simp
qed

declare binade.simps [simp del]

definition to_double :: "real \<Rightarrow> real" where
  "to_double x =
     (if x = 0 then 0
      else let u = 2 powi (max (binade \<bar>x\<bar>) (- 1022) - 52)
           in of_int (round_half_even (x / u)) * u)"

text \<open>
  \<open>a / b\<close> and \<open>a * b\<close> on numbers. The only division of the player has the divisor
  \<open>time_limit || 20\<close>, which is never zero.
\<close>

definition js_div :: "real \<Rightarrow> real \<Rightarrow> real" where
  "js_div a b = to_double (a / b)"

definition js_mul :: "real \<Rightarrow> real \<Rightarrow> real" where
  "js_mul a b = to_double (a * b)"

text \<open>\<open>Math.round(1000 * (timeLeft / (currentQuestion?.time_limit || 20))) + 500\<close>\<close>

definition points :: "int \<Rightarrow> Question option \<Rightarrow> int" where
  "points t q =
     Math_round (js_mul 1000 (js_div (of_int t) (of_int (time_limit_or_20 q)))) + 500"

section \<open>The handlers of QuizPlayer\<close>

definition startQuiz :: "session \<Rightarrow> session" where
  "startQuiz s =
     s\<lparr>currentQuestionIdx := 0, timeLeft := time_limit_or_20 (question_at s 0)\<rparr>"

text \<open>
  \<open>handleAnswer\<close> is created anew by every render and is a closure of it: it reads
  \<open>showResult\<close>, \<open>quiz\<close>, \<open>currentQuestionIdx\<close> and \<open>timeLeft\<close> as the render \<open>r\<close> that
  created it saw them. Its setters act on the state \<open>s\<close> at the time of the call:
  \<open>setSelectedAnswer\<close> and \<open>setShowResult\<close> store a value, \<open>setScore\<close> applies
  \<open>prev => prev + points\<close>.
\<close>

definition handleAnswer_from :: "session \<Rightarrow> session \<Rightarrow> string option \<Rightarrow> session" where
  "handleAnswer_from r s opt =
     (if showResult r then s
      else
        let s1 = s\<lparr>selectedAnswer := opt, showResult := True\<rparr>;
            currentQuestion = question_at r (currentQuestionIdx r)
        in if strict_eq opt (map_option correct_option currentQuestion)
           then s1\<lparr>score := score s + points (timeLeft r) currentQuestion\<rparr>
           else s1)"

text \<open>
  The handler of the current render, as the timer effect calls it and as a button
  calls it that was rendered from the current state.
\<close>

definition handleAnswer :: "session \<Rightarrow> string option \<Rightarrow> session" where
  "handleAnswer s opt = handleAnswer_from s s opt"

text \<open>
  \<open>nextQuestion\<close> reads \<open>quiz.questions[nextIdx].time_limit\<close> without optional chaining:
  \<open>nextIdx\<close> is below the length by the test before it, and a negative \<open>nextIdx\<close>
  (an index below \<open>-1\<close>, which no handler produces) raises a TypeError.
\<close>

definition nextQuestion :: "session \<Rightarrow> error + session" where
  "nextQuestion s =
     (case quiz s of
        None \<Rightarrow> Inr s
      | Some qz \<Rightarrow>
          (case questions qz of
             None \<Rightarrow> Inr s
           | Some qs \<Rightarrow>
               if currentQuestionIdx s < int (length qs) - 1 then
                 let nextIdx = currentQuestionIdx s + 1
                 in (case js_index qs nextIdx of
                       None \<Rightarrow> Inl TypeError
                     | Some q \<Rightarrow>
                         Inr (s\<lparr>currentQuestionIdx := nextIdx, timeLeft := time_limit q,
                                selectedAnswer := None, showResult := False\<rparr>))
               else Inr (s\<lparr>isGameOver := True\<rparr>)))"

section \<open>The timer effect\<close>

text \<open>
  The effect runs after every render in which \<open>timeLeft\<close>, \<open>currentQuestionIdx\<close>,
  \<open>showResult\<close> or \<open>isGameOver\<close> changed. Its first branch arms a one-second interval
  whose callback is \<open>setTimeLeft(prev => prev - 1)\<close>; its second branch submits the
  empty answer at once. The interval is cleared whenever the effect runs again, so it
  fires only in a state in which it was armed.
\<close>

definition timer_armed :: "session \<Rightarrow> bool" where
  "timer_armed s \<longleftrightarrow>
     0 \<le> currentQuestionIdx s \<and> \<not> showResult s \<and> \<not> isGameOver s \<and> 0 < timeLeft s"

definition timer_effect :: "session \<Rightarrow> session" where
  "timer_effect s =
     (if timer_armed s then s
      else if timeLeft s = 0 \<and> 0 \<le> currentQuestionIdx s \<and> \<not> showResult s \<and> \<not> isGameOver s
      then handleAnswer s None
      else s)"

text \<open>One elapsed second: the interval callback, then the effect of the new render.\<close>

definition tick :: "session \<Rightarrow> session" where
  "tick s = (if timer_armed s then timer_effect (s\<lparr>timeLeft := timeLeft s - 1\<rparr>) else s)"

section \<open>The view\<close>

text \<open>
  The phases of the specification are not a field of the component; they are the
  branches of its render function, taken in this order: lobby when the index is \<open>-1\<close>,
  game over when \<open>isGameOver\<close>, and otherwise the result card or the question card
  according to \<open>showResult\<close>. The question phase is written \<open>Asking\<close> here.
\<close>

datatype phase = Lobby | Asking | Result | GameOver

definition phase_of :: "session \<Rightarrow> phase" where
  "phase_of s =
     (if currentQuestionIdx s = - 1 then Lobby
      else if isGameOver s then GameOver
      else if showResult s then Result
      else Asking)"

text \<open>
  What is on the screen. Before the quiz has loaded there is only the loading text.
  The question and result cards read \<open>currentQuestion.question_text\<close> and
  \<open>currentQuestion.correct_option\<close> of \<open>quiz.questions![currentQuestionIdx]\<close>, which
  raises when there is no such question; \<open>App\<close> sets up no error boundary.

  The question card and the result card are the children of an \<open>AnimatePresence\<close>
  element in mode \<open>wait\<close>, and the question card has an exit animation: when
  \<open>showResult\<close> becomes true, the question card of the previous render stays on the
  screen, with the answer buttons and the \<open>handleAnswer\<close> of that render, until the
  animation has ended. A click on it then is \<open>handleAnswer_from\<close> with the previous
  render as \<open>r\<close>.
\<close>

datatype view = Loading | LobbyView | GameOverView | QuestionView | ResultView

definition render :: "session \<Rightarrow> error + view" where
  "render s =
     (case quiz s of
        None \<Rightarrow> Inr Loading
      | Some qz \<Rightarrow>
          if currentQuestionIdx s = - 1 then Inr LobbyView
          else if isGameOver s then Inr GameOverView
          else (case question_at s (currentQuestionIdx s) of
                  None \<Rightarrow> Inl TypeError
                | Some q \<Rightarrow> Inr (if \<not> showResult s then QuestionView else ResultView)))"

section \<open>Sequences of operations\<close>

text \<open>
  The four operations of the state machine, each a handler followed by the timer
  effect of the render it causes. A run stops at the first error.
\<close>

datatype operation = Start | Tick | SubmitAnswer "string option" | NextQuestion

definition step :: "operation \<Rightarrow> session \<Rightarrow> error + session" where
  "step p s =
     (case p of
        Start \<Rightarrow> Inr (timer_effect (startQuiz s))
      | Tick \<Rightarrow> Inr (tick s)
      | SubmitAnswer opt \<Rightarrow> Inr (timer_effect (handleAnswer s opt))
      | NextQuestion \<Rightarrow>
          (case nextQuestion s of Inl e \<Rightarrow> Inl e | Inr s' \<Rightarrow> Inr (timer_effect s')))"

fun run :: "operation list \<Rightarrow> session \<Rightarrow> error + session" where
  "run [] s = Inr s"
| "run (p # ps) s = (case step p s of Inl e \<Rightarrow> Inl e | Inr s' \<Rightarrow> run ps s')"

section \<open>The creation and seed paths of the server (server.ts)\<close>

text \<open>
  The body of \<open>POST /api/quizzes\<close> is whatever JSON the client sent; the handler checks
  none of it. A field that is absent reads as \<open>undefined\<close>.
\<close>

datatype js_value =
    JUndefined
  | JNull
  | JBool bool
  | JNumber real
  | JString string
  | JArray "js_value list"
  | JObject "(string \<times> js_value) list"

text \<open>\<open>a || b\<close>: \<open>b\<close> when \<open>a\<close> is falsy. JSON has no \<open>NaN\<close>.\<close>

definition falsy :: "js_value \<Rightarrow> bool" where
  "falsy v \<longleftrightarrow>
     v = JUndefined \<or> v = JNull \<or> v = JBool False \<or> v = JNumber 0 \<or> v = JString []"

definition js_or :: "js_value \<Rightarrow> js_value \<Rightarrow> js_value" where
  "js_or a b = (if falsy a then b else a)"

text \<open>One element \<open>q\<close> of \<open>questions\<close> in the body.\<close>

record question_body =
  body_question_text :: js_value
  body_option_a :: js_value
  body_option_b :: js_value
  body_option_c :: js_value
  body_option_d :: js_value
  body_correct_option :: js_value
  body_time_limit :: js_value

text \<open>
  The eight values the handler binds to the insert statement for \<open>q\<close>:
  \<open>questionStmt.run(quizId, q.question_text, \<dots>, q.correct_option, q.time_limit || 20)\<close>.
  What the database makes of a bound value is not modelled.
\<close>

definition insert_arguments :: "int \<Rightarrow> question_body \<Rightarrow> js_value list" where
  "insert_arguments quizId q =
     [JNumber (of_int quizId), body_question_text q, body_option_a q, body_option_b q,
      body_option_c q, body_option_d q, body_correct_option q,
      js_or (body_time_limit q) (JNumber 20)]"

text \<open>
  The seed statement names no \<open>time_limit\<close> column, so every seeded row takes the
  column default \<open>20\<close> of the table definition.
\<close>

definition seeded_question ::
  "int \<Rightarrow> string \<times> string \<times> string \<times> string \<times> string \<times> string \<Rightarrow> Question" where
  "seeded_question rowid r =
     (case r of (txt, a, b, c, d, correct) \<Rightarrow>
        \<lparr>q_id = Some rowid, question_text = txt, option_a = a, option_b = b,
         option_c = c, option_d = d, correct_option = correct, time_limit = 20\<rparr>)"

section \<open>An invariant of the reachable sessions\<close>

text \<open>
  Whenever there is a current question, the time left is either between zero and the
  limit the scoring formula divides by, or equal to that limit (the case of a negative
  limit, which the timer never counts down).
\<close>

definition time_in_range :: "session \<Rightarrow> bool" where
  "time_in_range s =
     (case question_at s (currentQuestionIdx s) of
        None \<Rightarrow> True
      | Some q \<Rightarrow>
          (0 \<le> timeLeft s \<and> timeLeft s \<le> time_limit_or_20 (Some q))
          \<or> timeLeft s = time_limit_or_20 (Some q))"

definition reachable_inv :: "session \<Rightarrow> bool" where
  "reachable_inv s \<longleftrightarrow> - 1 \<le> currentQuestionIdx s \<and> 0 \<le> score s \<and> time_in_range s"

section \<open>Example sessions\<close>

definition example_question :: "string \<Rightarrow> int \<Rightarrow> Question" where
  "example_question c n =
     \<lparr>q_id = None, question_text = ''Q'', option_a = ''a'', option_b = ''b'',
      option_c = ''c'', option_d = ''d'', correct_option = c, time_limit = n\<rparr>"

definition example_quiz :: "Question list \<Rightarrow> Quiz" where
  "example_quiz qs =
     \<lparr>quiz_id = 1, title = ''T'', description = ''D'', topic = ''General'',
      created_at = ''2024-01-01'', questions = Some qs\<rparr>"

text \<open>The quiz of the scenario: two questions of 20 seconds, answers B and C.\<close>

definition quiz2 :: Quiz where
  "quiz2 = example_quiz [example_question ''B'' 20, example_question ''C'' 20]"

definition empty_quiz :: Quiz where
  "empty_quiz = example_quiz []"

definition zero_limit_quiz :: Quiz where
  "zero_limit_quiz = example_quiz [example_question ''A'' 0]"

text \<open>
  The first question of \<open>quiz2\<close> with 15 seconds left, with one second left, and
  its result card.
\<close>

definition asking15 :: session where
  "asking15 = \<lparr>quiz = Some quiz2, currentQuestionIdx = 0, score = 0, timeLeft = 15,
     selectedAnswer = None, showResult = False, isGameOver = False\<rparr>"

definition asking1 :: session where
  "asking1 = asking15\<lparr>timeLeft := 1\<rparr>"

definition result15 :: session where
  "result15 = \<lparr>quiz = Some quiz2, currentQuestionIdx = 0, score = 1250, timeLeft = 15,
     selectedAnswer = Some ''B'', showResult = True, isGameOver = False\<rparr>"

text \<open>The result card of the last question, and the final screen after it.\<close>

definition result_last :: session where
  "result_last = \<lparr>quiz = Some quiz2, currentQuestionIdx = 1, score = 1250, timeLeft = 20,
     selectedAnswer = Some ''A'', showResult = True, isGameOver = False\<rparr>"

definition game_over :: session where
  "game_over = result_last\<lparr>isGameOver := True\<rparr>"

text \<open>A quiz with one question of 400 seconds, and that question with 201 seconds left.\<close>

definition long_quiz :: Quiz where
  "long_quiz = example_quiz [example_question ''A'' 400]"

definition asking201 :: session where
  "asking201 = \<lparr>quiz = Some long_quiz, currentQuestionIdx = 0, score = 0, timeLeft = 201,
     selectedAnswer = None, showResult = False, isGameOver = False\<rparr>"

text \<open>Request bodies with a given \<open>time_limit\<close>.\<close>

definition example_body :: "js_value \<Rightarrow> question_body" where
  "example_body v =
     \<lparr>body_question_text = JString ''Q'', body_option_a = JString ''a'',
      body_option_b = JString ''b'', body_option_c = JString ''c'',
      body_option_d = JString ''d'', body_correct_option = JString ''A'',
      body_time_limit = v\<rparr>"

definition negative_body :: question_body where
  "negative_body = example_body (JNumber (- 5))"

section \<open>Basic facts\<close>

lemmas example_defs = quiz2_def empty_quiz_def zero_limit_quiz_def example_quiz_def
  example_question_def asking15_def asking1_def result15_def result_last_def game_over_def
  negative_body_def example_body_def long_quiz_def asking201_def initial_def

lemma handleAnswer_unfold:
  "handleAnswer s opt =
     (if showResult s then s
      else
        let s1 = s\<lparr>selectedAnswer := opt, showResult := True\<rparr>;
            currentQuestion = question_at s (currentQuestionIdx s)
        in if strict_eq opt (map_option correct_option currentQuestion)
           then s1\<lparr>score := score s + points (timeLeft s) currentQuestion\<rparr>
           else s1)"
  by (simp add: handleAnswer_def handleAnswer_from_def)

lemmas handler_defs = startQuiz_def handleAnswer_unfold nextQuestion_def timer_armed_def
  timer_effect_def tick_def question_at_def js_index_def time_limit_or_20_def
  strict_eq_def points_def Math_round_def phase_of_def

lemmas double_defs = js_div_def js_mul_def to_double_def round_half_even_def binade.simps

subsection \<open>Rounding to double precision\<close>

lemma binade_bounds:
  "0 < x \<Longrightarrow> 2 powi (binade x) \<le> x \<and> x < 2 powi (binade x + 1)"
proof (induction x rule: binade.induct)
  case (1 x)
  show ?case
  proof (cases "x < 1")
    case True
    with "1.prems" have ih: "2 powi (binade (2 * x)) \<le> 2 * x \<and> 2 * x < 2 powi (binade (2 * x) + 1)"
      using "1.IH"(1) by simp
    have b: "binade x = binade (2 * x) - 1"
      using True "1.prems" by (simp add: binade.simps [of x])
    have "(2::real) powi (binade (2 * x)) = 2 * 2 powi (binade (2 * x) - 1)"
      by (simp add: power_int_diff)
    moreover have "(2::real) powi (binade (2 * x) + 1) = 2 * 2 powi (binade (2 * x))"
      by (simp add: power_int_add)
    ultimately show ?thesis using ih b by simp
  next
    case False
    show ?thesis
    proof (cases "2 \<le> x")
      case True
      with False "1.prems" have ih: "2 powi (binade (x / 2)) \<le> x / 2 \<and> x / 2 < 2 powi (binade (x / 2) + 1)"
        using "1.IH"(2) by simp
      have b: "binade x = binade (x / 2) + 1"
        using True False "1.prems" by (simp add: binade.simps [of x])
      have "(2::real) powi (binade (x / 2) + 1) = 2 * 2 powi (binade (x / 2))"
        by (simp add: power_int_add)
      moreover have "(2::real) powi (binade (x / 2) + 1 + 1) = 2 * (2 * 2 powi (binade (x / 2)))"
        by (simp add: power_int_add)
      ultimately show ?thesis using ih b by simp
    next
      case two: False
      have b: "binade x = 0"
        using two False "1.prems" by (simp add: binade.simps [of x])
      show ?thesis using two False b by simp
    qed
  qed
qed

lemma round_half_even_ge: "of_int k \<le> x \<Longrightarrow> k \<le> round_half_even x"
proof -
  assume "of_int k \<le> x"
  then have "k \<le> \<lfloor>x\<rfloor>" by (simp add: le_floor_iff)
  then show ?thesis by (simp add: round_half_even_def Let_def)
qed

lemma round_half_even_le: "x \<le> of_int k \<Longrightarrow> round_half_even x \<le> k"
proof -
  assume le: "x \<le> of_int k"
  show ?thesis
  proof (cases "x = of_int k")
    case True
    then show ?thesis by (simp add: round_half_even_def Let_def)
  next
    case False
    with le have "x < of_int k" by simp
    then have "\<lfloor>x\<rfloor> < k" by (simp add: floor_less_iff)
    then have "\<lfloor>x\<rfloor> + 1 \<le> k" by simp
    then show ?thesis by (auto simp: round_half_even_def Let_def)
  qed
qed

lemma to_double_nonneg: "0 \<le> x \<Longrightarrow> 0 \<le> to_double x"
proof -
  assume x: "0 \<le> x"
  have "0 \<le> round_half_even (x / 2 powi n)" for n
    using x by (intro round_half_even_ge) simp
  then show ?thesis by (simp add: to_double_def Let_def)
qed

lemma to_double_le_int:
  assumes "0 < x" and "x \<le> of_int k" and "k < 2 ^ 53"
  shows "to_double x \<le> of_int k"
proof -
  let ?e = "binade \<bar>x\<bar>"
  let ?p = "max ?e (- 1022) - 52"
  let ?u = "(2::real) powi ?p"
  let ?n = "nat (- ?p)"
  have u: "0 < ?u" by simp
  have "2 powi ?e \<le> x" using binade_bounds [of x] assms(1) by simp
  also have "x \<le> of_int k" by (rule assms(2))
  also have "(of_int k :: real) < of_int (2 ^ 53)" using assms(3) by (simp only: of_int_less_iff)
  finally have "(2::real) powi ?e < 2 powi 53" by simp
  then have "?e < 53" by (intro power_int_le_imp_less_exp [of 2]) simp_all
  then have p: "?p \<le> 0" by simp
  have "(2::real) powi (- ?p) = 2 ^ ?n"
    using p by (simp add: power_int_nonneg_exp)
  moreover have "(2::real) powi (- ?p) = 1 / ?u"
    by (simp only: power_int_minus inverse_eq_divide)
  ultimately have inv: "1 / ?u = 2 ^ ?n" by simp
  have "x / ?u \<le> of_int k / ?u"
    using assms(2) u by (simp add: divide_right_mono)
  also have "of_int k / ?u = of_int k * (1 / ?u)" by simp
  also have "\<dots> = of_int (k * 2 ^ ?n)" unfolding inv by simp
  finally have "round_half_even (x / ?u) \<le> k * 2 ^ ?n"
    by (rule round_half_even_le)
  then have "(of_int (round_half_even (x / ?u)) :: real) \<le> of_int (k * 2 ^ ?n)"
    by (simp only: of_int_le_iff)
  then have "of_int (round_half_even (x / ?u)) * ?u \<le> of_int (k * 2 ^ ?n) * ?u"
    using u by (simp add: mult_right_mono)
  also have "of_int (k * 2 ^ ?n) * ?u = of_int k * ((1 / ?u) * ?u)"
    unfolding inv by simp
  also have "\<dots> = of_int k" using u by simp
  finally show ?thesis
    using assms(1) by (simp add: to_double_def Let_def)
qed

lemma to_double_0: "to_double 0 = 0"
  by (simp add: to_double_def)

lemma to_double_1: "to_double 1 = 1"
  by (simp add: to_double_def binade.simps round_half_even_def Let_def)

lemma to_double_1000: "to_double 1000 = 1000"
  by (simp add: to_double_def binade.simps round_half_even_def Let_def)

lemma to_double_unit_interval:
  assumes "0 \<le> x" and "x \<le> 1"
  shows "0 \<le> to_double x \<and> to_double x \<le> 1"
proof (cases "x = 0")
  case True
  then show ?thesis by (simp add: to_double_0)
next
  case False
  with assms(1) have "0 < x" by simp
  then have "to_double x \<le> of_int 1"
    using assms(2) by (intro to_double_le_int) simp_all
  then show ?thesis using assms(1) by (simp add: to_double_nonneg)
qed

lemma to_double_thousandfold:
  assumes "0 \<le> y" and "y \<le> 1"
  shows "0 \<le> to_double (1000 * y) \<and> to_double (1000 * y) \<le> 1000"
proof (cases "y = 0")
  case True
  then show ?thesis by (simp add: to_double_0)
next
  case False
  with assms(1) have "0 < 1000 * y" by simp
  then have "to_double (1000 * y) \<le> of_int 1000"
    using assms(2) by (intro to_double_le_int) simp_all
  then show ?thesis using assms(1) by (simp add: to_double_nonneg)
qed

subsection \<open>Scoring\<close>

lemma Math_round_nonneg: "0 \<le> x \<Longrightarrow> 0 \<le> Math_round x"
  by (simp add: Math_round_def)

lemma Math_round_le: "x \<le> of_int n \<Longrightarrow> Math_round x \<le> n"
  unfolding Math_round_def by (simp add: floor_le_iff)

lemma time_limit_or_20_nonzero: "time_limit_or_20 q \<noteq> 0"
  by (simp add: time_limit_or_20_def split: option.splits)

lemma time_limit_or_20_Some: "time_limit q \<noteq> 0 \<Longrightarrow> time_limit_or_20 (Some q) = time_limit q"
  by (simp add: time_limit_or_20_def)

lemma points_zero: "points 0 q = 500"
  by (simp add: points_def js_div_def js_mul_def to_double_0 Math_round_def)

lemma points_full: "points (time_limit_or_20 q) q = 1500"
  using time_limit_or_20_nonzero [of q]
  by (simp add: points_def js_div_def js_mul_def to_double_1 to_double_1000 Math_round_def)

lemma points_bounds:
  assumes "0 \<le> t" and "t \<le> time_limit_or_20 q"
  shows "500 \<le> points t q \<and> points t q \<le> 1500"
proof -
  let ?L = "time_limit_or_20 q"
  let ?r = "(of_int t / of_int ?L) :: real"
  let ?d = "js_div (of_int t) (of_int ?L)"
  let ?m = "js_mul 1000 ?d"
  have Lpos: "0 < ?L"
    using assms time_limit_or_20_nonzero [of q] by linarith
  have r0: "0 \<le> ?r" using assms Lpos by simp
  have r1: "?r \<le> 1" using assms Lpos by simp
  have d: "0 \<le> ?d \<and> ?d \<le> 1"
    unfolding js_div_def using r0 r1 by (rule to_double_unit_interval)
  have m: "0 \<le> ?m \<and> ?m \<le> 1000"
    unfolding js_mul_def using d by (intro to_double_thousandfold) simp_all
  have "0 \<le> Math_round ?m"
    using m by (intro Math_round_nonneg) simp
  moreover have "Math_round ?m \<le> 1000"
    using m by (intro Math_round_le) simp
  ultimately show ?thesis by (simp add: points_def)
qed

lemma points_in_range:
  assumes "(0 \<le> t \<and> t \<le> time_limit_or_20 q) \<or> t = time_limit_or_20 q"
  shows "500 \<le> points t q"
  using assms points_bounds [of t q] points_full [of q] by auto

subsection \<open>The answer handler\<close>

lemma handleAnswer_fresh:
  assumes "\<not> showResult s"
  shows "handleAnswer s opt =
     (if strict_eq opt (map_option correct_option (question_at s (currentQuestionIdx s)))
      then s\<lparr>selectedAnswer := opt, showResult := True,
             score := score s + points (timeLeft s) (question_at s (currentQuestionIdx s))\<rparr>
      else s\<lparr>selectedAnswer := opt, showResult := True\<rparr>)"
  using assms by (simp add: handleAnswer_unfold Let_def)

lemma handleAnswer_shown: "showResult s \<Longrightarrow> handleAnswer s opt = s"
  by (simp add: handleAnswer_unfold)

lemma showResult_handleAnswer: "showResult (handleAnswer s opt)"
  by (simp add: handleAnswer_unfold Let_def)

lemma handleAnswer_None:
  "\<not> showResult s \<Longrightarrow> handleAnswer s None = s\<lparr>selectedAnswer := None, showResult := True\<rparr>"
  by (simp add: handleAnswer_fresh strict_eq_def)

lemma strict_eq_Some: "strict_eq opt (Some c) \<longleftrightarrow> opt = Some c"
  by (auto simp: strict_eq_def split: option.splits)

lemma strict_eq_None: "\<not> strict_eq opt None" "\<not> strict_eq None x"
  by (simp_all add: strict_eq_def split: option.splits)

subsection \<open>The scenario, step by step\<close>

lemma scenario_first_answer:
  "run [Start, Tick, Tick, Tick, Tick, Tick, SubmitAnswer (Some ''B'')] (initial (Some quiz2))
     = Inr result15"
  by (simp add: step_def example_defs handler_defs double_defs Let_def)

lemma scenario_second_answer:
  "run [Start, Tick, Tick, Tick, Tick, Tick, SubmitAnswer (Some ''B''), NextQuestion,
        SubmitAnswer (Some ''A'')] (initial (Some quiz2)) = Inr result_last"
  by (simp add: step_def example_defs handler_defs double_defs Let_def)

lemma scenario_end:
  "run [Start, Tick, Tick, Tick, Tick, Tick, SubmitAnswer (Some ''B''), NextQuestion,
        SubmitAnswer (Some ''A''), NextQuestion] (initial (Some quiz2)) = Inr game_over"
  by (simp add: step_def example_defs handler_defs double_defs Let_def)

section \<open>Scoring an answer\<close>

text \<open>
  Claim C10. A correct answer given in the question phase, with the time left between
  zero and a positive time limit, adds at least 500 and at most 1500 points to the
  score; with no time left it adds exactly 500, with the whole limit left exactly 1500.
\<close>

theorem correct_answer_points_bounds:
  assumes "phase_of s = Asking"
    and "question_at s (currentQuestionIdx s) = Some q"
    and "opt = Some (correct_option q)"
    and "0 \<le> timeLeft s" and "timeLeft s \<le> time_limit q" and "0 < time_limit q"
  shows "500 \<le> score (handleAnswer s opt) - score s
       \<and> score (handleAnswer s opt) - score s \<le> 1500
       \<and> (timeLeft s = 0 \<longrightarrow> score (handleAnswer s opt) = score s + 500)
       \<and> (timeLeft s = time_limit q \<longrightarrow> score (handleAnswer s opt) = score s + 1500)"
proof -
  have fresh: "\<not> showResult s"
    using assms(1) by (simp add: phase_of_def split: if_splits)
  have L: "time_limit_or_20 (Some q) = time_limit q"
    using assms(6) by (simp add: time_limit_or_20_Some)
  have delta: "score (handleAnswer s opt) = score s + points (timeLeft s) (Some q)"
    using fresh assms(2,3) by (simp add: handleAnswer_fresh strict_eq_Some)
  have "500 \<le> points (timeLeft s) (Some q) \<and> points (timeLeft s) (Some q) \<le> 1500"
    using assms(4,5) L by (intro points_bounds) simp_all
  moreover have "timeLeft s = 0 \<longrightarrow> points (timeLeft s) (Some q) = 500"
    by (simp add: points_zero)
  moreover have "timeLeft s = time_limit q \<longrightarrow> points (timeLeft s) (Some q) = 1500"
    using points_full [of "Some q"] L by simp
  ultimately show ?thesis using delta by simp
qed

theorem correct_answer_points_bounds_witness:
  "phase_of asking15 = Asking
   \<and> question_at asking15 (currentQuestionIdx asking15) = Some (example_question ''B'' 20)
   \<and> 0 \<le> timeLeft asking15 \<and> timeLeft asking15 \<le> time_limit (example_question ''B'' 20)
   \<and> 0 < time_limit (example_question ''B'' 20)
   \<and> 500 \<le> score (handleAnswer asking15 (Some ''B'')) - score asking15
   \<and> score (handleAnswer asking15 (Some ''B'')) - score asking15 \<le> 1500"
proof -
  have h1: "phase_of asking15 = Asking"
    by (simp add: phase_of_def asking15_def)
  have h2: "question_at asking15 (currentQuestionIdx asking15) = Some (example_question ''B'' 20)"
    by (simp add: question_at_def js_index_def example_defs)
  have h3: "Some ''B'' = Some (correct_option (example_question ''B'' 20))"
    by (simp add: example_question_def)
  have h4: "0 \<le> timeLeft asking15" by (simp add: asking15_def)
  have h5: "timeLeft asking15 \<le> time_limit (example_question ''B'' 20)"
    by (simp add: asking15_def example_question_def)
  have h6: "0 < time_limit (example_question ''B'' 20)"
    by (simp add: example_question_def)
  show ?thesis
    using correct_answer_points_bounds [OF h1 h2 h3 h4 h5 h6] h1 h2 h4 h5 h6 by simp
qed

subsection \<open>The formula in double precision\<close>

lemma points_at:
  "time_limit_or_20 q = L \<Longrightarrow>
   points t q = Math_round (js_mul 1000 (js_div (of_int t) (of_int L))) + 500"
  by (simp add: points_def)

lemma thousandfold_of_twentieths:
  "Math_round (js_mul 1000 (js_div 0 20)) = 0"
  "Math_round (js_mul 1000 (js_div 1 20)) = 50"
  "Math_round (js_mul 1000 (js_div 2 20)) = 100"
  "Math_round (js_mul 1000 (js_div 3 20)) = 150"
  "Math_round (js_mul 1000 (js_div 4 20)) = 200"
  "Math_round (js_mul 1000 (js_div 5 20)) = 250"
  "Math_round (js_mul 1000 (js_div 6 20)) = 300"
  "Math_round (js_mul 1000 (js_div 7 20)) = 350"
  "Math_round (js_mul 1000 (js_div 8 20)) = 400"
  "Math_round (js_mul 1000 (js_div 9 20)) = 450"
  "Math_round (js_mul 1000 (js_div 10 20)) = 500"
  "Math_round (js_mul 1000 (js_div 11 20)) = 550"
  "Math_round (js_mul 1000 (js_div 12 20)) = 600"
  "Math_round (js_mul 1000 (js_div 13 20)) = 650"
  "Math_round (js_mul 1000 (js_div 14 20)) = 700"
  "Math_round (js_mul 1000 (js_div 15 20)) = 750"
  "Math_round (js_mul 1000 (js_div 16 20)) = 800"
  "Math_round (js_mul 1000 (js_div 17 20)) = 850"
  "Math_round (js_mul 1000 (js_div 18 20)) = 900"
  "Math_round (js_mul 1000 (js_div 19 20)) = 950"
  "Math_round (js_mul 1000 (js_div 20 20)) = 1000"
  by (simp_all add: double_defs Math_round_def Let_def)

lemma points_limit_20:
  assumes "time_limit_or_20 q = 20" and "0 \<le> t" and "t \<le> 20"
  shows "points t q = 50 * t + 500"
proof -
  from assms(2,3) have "t \<in> {0, 1, 2, 3, 4, 5, 6, 7, 8, 9, 10, 11, 12, 13, 14, 15, 16, 17, 18, 19, 20}"
    by simp presburger
  then show ?thesis
    unfolding points_at [OF assms(1)]
    by (elim insertE emptyE) (simp_all add: thousandfold_of_twentieths)
qed

lemma double_201_of_400:
  "js_mul 1000 (js_div 201 400) = 8840073487319039 / 17592186044416"
  by (simp add: double_defs Let_def)

lemma Math_round_201_of_400: "Math_round (js_mul 1000 (js_div 201 400)) = 502"
  by (simp add: double_201_of_400 Math_round_def)

text \<open>
  Claim C1 gives the points of a correct answer as
  \<open>round(1000 * (timeRemaining / time_limit)) + 500\<close>. With 201 of 400 seconds left the
  exact value of the product is 502.5 and the formula gives 1003; the handler, whose
  quotient and product are doubles, gets a product just below 502.5 and adds 1002.
\<close>

theorem exact_formula_counterexample:
  "phase_of asking201 = Asking
   \<and> question_at asking201 (currentQuestionIdx asking201) = Some (example_question ''A'' 400)
   \<and> correct_option (example_question ''A'' 400) = ''A''
   \<and> timeLeft asking201 = 201 \<and> time_limit (example_question ''A'' 400) = 400
   \<and> score (handleAnswer asking201 (Some ''A'')) = score asking201 + 1002
   \<and> round (1000 * (201 / 400 :: real)) + 500 = 1003"
proof -
  have q: "question_at asking201 (currentQuestionIdx asking201) = Some (example_question ''A'' 400)"
    by (simp add: question_at_def js_index_def example_defs)
  have p: "points 201 (Some (example_question ''A'' 400)) = 1002"
    by (simp add: points_def time_limit_or_20_def example_question_def Math_round_201_of_400)
  have s: "score (handleAnswer asking201 (Some ''A'')) = score asking201 + 1002"
    using q p by (simp add: handleAnswer_fresh strict_eq_Some asking201_def example_question_def)
  have r: "round (1000 * (201 / 400 :: real)) + 500 = 1003"
    by (simp add: round_def)
  show ?thesis
    using q s r by (simp add: phase_of_def asking201_def example_question_def)
qed

text \<open>
  Claim C1, amended. An answer given in the question phase on a question whose time
  limit is not zero: the correct option adds \<open>n + 500\<close>, where \<open>n\<close> is the integer
  nearest to the double \<open>1000 * (timeLeft / time_limit)\<close> (a half goes up), and for a
  time limit of 20 seconds that is the exact \<open>50 * timeLeft + 500\<close>; any other option
  and the empty answer leave the score as it is; in each case the result card is shown
  next. In the scenario (start, five ticks, answer B on a 20 second question whose
  correct option is B) the score is 1250, and it is still 1250 when the scenario ends
  in game over after a wrong answer to the second question.
\<close>

theorem handleAnswer_scores:
  assumes "phase_of s = Asking"
    and "question_at s (currentQuestionIdx s) = Some q"
    and "time_limit q \<noteq> 0"
  shows "(opt = Some (correct_option q) \<longrightarrow>
            (\<exists>n. score (handleAnswer s opt) = score s + (n + 500)
               \<and> of_int n \<le> js_mul 1000 (js_div (of_int (timeLeft s)) (of_int (time_limit q))) + 1 / 2
               \<and> js_mul 1000 (js_div (of_int (timeLeft s)) (of_int (time_limit q))) + 1 / 2 < of_int n + 1)
            \<and> phase_of (handleAnswer s opt) = Result)
       \<and> (opt = Some (correct_option q) \<and> time_limit q = 20 \<and> 0 \<le> timeLeft s \<and> timeLeft s \<le> 20 \<longrightarrow>
            score (handleAnswer s opt) = score s + (50 * timeLeft s + 500)
            \<and> 50 * timeLeft s = round (1000 * (of_int (timeLeft s) / of_int (time_limit q) :: real)))
       \<and> (opt \<noteq> Some (correct_option q) \<longrightarrow>
            score (handleAnswer s opt) = score s \<and> phase_of (handleAnswer s opt) = Result)
       \<and> (\<exists>s'. run [Start, Tick, Tick, Tick, Tick, Tick, SubmitAnswer (Some ''B'')]
                   (initial (Some quiz2)) = Inr s' \<and> score s' = 1250 \<and> phase_of s' = Result)
       \<and> (\<exists>s'. run [Start, Tick, Tick, Tick, Tick, Tick, SubmitAnswer (Some ''B''),
                     NextQuestion, SubmitAnswer (Some ''A''), NextQuestion]
                   (initial (Some quiz2)) = Inr s' \<and> score s' = 1250 \<and> phase_of s' = GameOver)"
proof -
  let ?x = "js_mul 1000 (js_div (of_int (timeLeft s)) (of_int (time_limit q)))"
  have fresh: "\<not> showResult s" and idx: "currentQuestionIdx s \<noteq> - 1" and go: "\<not> isGameOver s"
    using assms(1) by (simp_all add: phase_of_def split: if_splits)
  have L: "time_limit_or_20 (Some q) = time_limit q"
    using assms(3) by (simp add: time_limit_or_20_Some)
  have ph: "phase_of (handleAnswer s opt) = Result"
    using fresh idx go by (simp add: handleAnswer_fresh phase_of_def)
  have delta: "opt = Some (correct_option q) \<longrightarrow>
      score (handleAnswer s opt) = score s + points (timeLeft s) (Some q)"
    using fresh assms(2) by (simp add: handleAnswer_fresh strict_eq_Some)
  have pts: "points (timeLeft s) (Some q) = Math_round ?x + 500"
    using L by (simp add: points_def)
  have near: "of_int (Math_round ?x) \<le> ?x + 1 / 2 \<and> ?x + 1 / 2 < of_int (Math_round ?x) + 1"
    unfolding Math_round_def by linarith
  have right: "opt = Some (correct_option q) \<longrightarrow>
      (\<exists>n. score (handleAnswer s opt) = score s + (n + 500)
          \<and> of_int n \<le> ?x + 1 / 2 \<and> ?x + 1 / 2 < of_int n + 1)"
    using delta pts near by auto
  have twenty: "opt = Some (correct_option q) \<and> time_limit q = 20 \<and> 0 \<le> timeLeft s \<and> timeLeft s \<le> 20 \<longrightarrow>
            score (handleAnswer s opt) = score s + (50 * timeLeft s + 500)
            \<and> 50 * timeLeft s = round (1000 * (of_int (timeLeft s) / of_int (time_limit q) :: real))"
  proof (intro impI)
    assume a: "opt = Some (correct_option q) \<and> time_limit q = 20 \<and> 0 \<le> timeLeft s \<and> timeLeft s \<le> 20"
    then have "points (timeLeft s) (Some q) = 50 * timeLeft s + 500"
      using L by (intro points_limit_20) simp_all
    with a delta have one: "score (handleAnswer s opt) = score s + (50 * timeLeft s + 500)"
      by simp
    have "(1000 * (of_int (timeLeft s) / of_int (time_limit q)) :: real) = of_int (50 * timeLeft s)"
      using a by simp
    then have "round (1000 * (of_int (timeLeft s) / of_int (time_limit q)) :: real) = 50 * timeLeft s"
      by (simp only: round_of_int)
    with one show "score (handleAnswer s opt) = score s + (50 * timeLeft s + 500)
            \<and> 50 * timeLeft s = round (1000 * (of_int (timeLeft s) / of_int (time_limit q) :: real))"
      by simp
  qed
  have wrong: "opt \<noteq> Some (correct_option q) \<longrightarrow> score (handleAnswer s opt) = score s"
    using fresh assms(2) by (simp add: handleAnswer_fresh strict_eq_Some)
  have scen: "\<exists>s'. run [Start, Tick, Tick, Tick, Tick, Tick, SubmitAnswer (Some ''B'')]
                   (initial (Some quiz2)) = Inr s' \<and> score s' = 1250 \<and> phase_of s' = Result"
    unfolding scenario_first_answer by (simp add: result15_def phase_of_def)
  have scen_end: "\<exists>s'. run [Start, Tick, Tick, Tick, Tick, Tick, SubmitAnswer (Some ''B''),
                     NextQuestion, SubmitAnswer (Some ''A''), NextQuestion]
                   (initial (Some quiz2)) = Inr s' \<and> score s' = 1250 \<and> phase_of s' = GameOver"
    unfolding scenario_end by (simp add: game_over_def result_last_def phase_of_def)
  show ?thesis using ph right twenty wrong scen scen_end by blast
qed

theorem handleAnswer_scores_witness:
  "phase_of asking15 = Asking
   \<and> question_at asking15 (currentQuestionIdx asking15) = Some (example_question ''B'' 20)
   \<and> time_limit (example_question ''B'' 20) \<noteq> 0
   \<and> score (handleAnswer asking15 (Some ''B'')) = 1250
   \<and> phase_of (handleAnswer asking15 (Some ''B'')) = Result
   \<and> score (handleAnswer asking15 (Some ''A'')) = 0
   \<and> score (handleAnswer asking15 None) = 0
   \<and> phase_of (handleAnswer asking15 None) = Result
   \<and> phase_of asking201 = Asking
   \<and> question_at asking201 (currentQuestionIdx asking201) = Some (example_question ''A'' 400)
   \<and> score (handleAnswer asking201 (Some ''A'')) = 1002"
proof -
  have h1: "phase_of asking15 = Asking"
    by (simp add: phase_of_def asking15_def)
  have h2: "question_at asking15 (currentQuestionIdx asking15) = Some (example_question ''B'' 20)"
    by (simp add: question_at_def js_index_def example_defs)
  have h3: "time_limit (example_question ''B'' 20) \<noteq> 0"
    by (simp add: example_question_def)
  have v: "correct_option (example_question ''B'' 20) = ''B''"
    "time_limit (example_question ''B'' 20) = 20" "timeLeft asking15 = 15" "score asking15 = 0"
    by (simp_all add: example_question_def asking15_def)
  have g1: "phase_of asking201 = Asking"
    by (simp add: phase_of_def asking201_def)
  have g2: "question_at asking201 (currentQuestionIdx asking201) = Some (example_question ''A'' 400)"
    by (simp add: question_at_def js_index_def example_defs)
  have g3: "time_limit (example_question ''A'' 400) \<noteq> 0"
    by (simp add: example_question_def)
  have w: "correct_option (example_question ''A'' 400) = ''A''"
    "time_limit (example_question ''A'' 400) = 400" "timeLeft asking201 = 201" "score asking201 = 0"
    by (simp_all add: example_question_def asking201_def)
  have b: "score (handleAnswer asking15 (Some ''B'')) = 1250
      \<and> phase_of (handleAnswer asking15 (Some ''B'')) = Result"
    using handleAnswer_scores [OF h1 h2 h3, of "Some ''B''"] by (simp add: v)
  have a: "score (handleAnswer asking15 (Some ''A'')) = 0"
    using handleAnswer_scores [OF h1 h2 h3, of "Some ''A''"] by (simp add: v)
  have n: "score (handleAnswer asking15 None) = 0 \<and> phase_of (handleAnswer asking15 None) = Result"
    using handleAnswer_scores [OF h1 h2 h3, of None] by (simp add: v)
  from handleAnswer_scores [OF g1 g2 g3, of "Some ''A''"] obtain k
    where k: "score (handleAnswer asking201 (Some ''A'')) = k + 500"
      "of_int k \<le> js_mul 1000 (js_div 201 400) + 1 / 2"
      "js_mul 1000 (js_div 201 400) + 1 / 2 < of_int k + 1"
    by (auto simp: w)
  from k(2,3) have "k = \<lfloor>js_mul 1000 (js_div 201 400) + 1 / 2\<rfloor>"
    by linarith
  then have "k = 502"
    using Math_round_201_of_400 by (simp add: Math_round_def)
  with k(1) have l: "score (handleAnswer asking201 (Some ''A'')) = 1002" by simp
  show ?thesis using h1 h2 h3 b a n g1 g2 l by blast
qed

section \<open>Advancing and finishing\<close>

subsection \<open>The outcomes of nextQuestion\<close>

lemma nextQuestion_last:
  assumes "quiz s = Some qz" and "questions qz = Some qs"
    and "\<not> currentQuestionIdx s < int (length qs) - 1"
  shows "nextQuestion s = Inr (s\<lparr>isGameOver := True\<rparr>)"
  using assms by (simp add: nextQuestion_def)

lemma nextQuestion_advance:
  assumes "quiz s = Some qz" and "questions qz = Some qs"
    and "currentQuestionIdx s < int (length qs) - 1" and "- 1 \<le> currentQuestionIdx s"
  shows "nextQuestion s =
     Inr (s\<lparr>currentQuestionIdx := currentQuestionIdx s + 1,
            timeLeft := time_limit (qs ! nat (currentQuestionIdx s + 1)),
            selectedAnswer := None, showResult := False\<rparr>)"
  using assms by (simp add: nextQuestion_def js_index_def Let_def)

lemma nextQuestion_unloaded:
  "quiz s = None \<or> (\<exists>qz. quiz s = Some qz \<and> questions qz = None) \<Longrightarrow> nextQuestion s = Inr s"
  by (auto simp: nextQuestion_def)

lemma nextQuestion_outcome:
  "nextQuestion s = Inr s
   \<or> nextQuestion s = Inr (s\<lparr>isGameOver := True\<rparr>)
   \<or> (\<exists>q. 0 \<le> currentQuestionIdx s + 1
          \<and> question_at s (currentQuestionIdx s + 1) = Some q
          \<and> nextQuestion s = Inr (s\<lparr>currentQuestionIdx := currentQuestionIdx s + 1,
                timeLeft := time_limit q, selectedAnswer := None, showResult := False\<rparr>))
   \<or> (currentQuestionIdx s < - 1 \<and> nextQuestion s = Inl TypeError)"
proof (cases "quiz s")
  case None
  then show ?thesis by (simp add: nextQuestion_def)
next
  case (Some qz)
  show ?thesis
  proof (cases "questions qz")
    case None
    with Some show ?thesis by (simp add: nextQuestion_def)
  next
    case qs: (Some qs)
    show ?thesis
    proof (cases "currentQuestionIdx s < int (length qs) - 1")
      case False
      with Some qs show ?thesis by (simp add: nextQuestion_def)
    next
      case True
      show ?thesis
      proof (cases "0 \<le> currentQuestionIdx s + 1")
        case neg: False
        with Some qs True show ?thesis
          by (simp add: nextQuestion_def js_index_def Let_def)
      next
        case pos: True
        with Some qs True show ?thesis
          by (simp add: nextQuestion_def question_at_def js_index_def Let_def)
      qed
    qed
  qed
qed

lemma nextQuestion_cases:
  obtains (noop) "nextQuestion s = Inr s"
  | (over) "nextQuestion s = Inr (s\<lparr>isGameOver := True\<rparr>)"
  | (advance) q where "0 \<le> currentQuestionIdx s + 1"
      "question_at s (currentQuestionIdx s + 1) = Some q"
      "nextQuestion s = Inr (s\<lparr>currentQuestionIdx := currentQuestionIdx s + 1,
            timeLeft := time_limit q, selectedAnswer := None, showResult := False\<rparr>)"
  | (fail) "currentQuestionIdx s < - 1" "nextQuestion s = Inl TypeError"
  using nextQuestion_outcome [of s] by blast

text \<open>
  Claim C7. On the result card of a question of the quiz: at the last index
  \<open>nextQuestion\<close> sets the game-over flag and nothing else, so the phase is game over
  and not the question phase; at any earlier index it adds one to the index, sets the
  time left to the time limit of the new question, clears the selected answer and
  shows the question card.
\<close>

theorem nextQuestion_from_result:
  assumes "phase_of s = Result"
    and "quiz s = Some qz" and "questions qz = Some qs"
    and "0 \<le> currentQuestionIdx s" and "currentQuestionIdx s < int (length qs)"
  shows "(currentQuestionIdx s = int (length qs) - 1 \<longrightarrow>
            nextQuestion s = Inr (s\<lparr>isGameOver := True\<rparr>)
            \<and> phase_of (s\<lparr>isGameOver := True\<rparr>) = GameOver)
       \<and> (currentQuestionIdx s \<noteq> int (length qs) - 1 \<longrightarrow>
            nextQuestion s =
              Inr (s\<lparr>currentQuestionIdx := currentQuestionIdx s + 1,
                     timeLeft := time_limit (qs ! nat (currentQuestionIdx s + 1)),
                     selectedAnswer := None, showResult := False\<rparr>)
            \<and> phase_of (s\<lparr>currentQuestionIdx := currentQuestionIdx s + 1,
                     timeLeft := time_limit (qs ! nat (currentQuestionIdx s + 1)),
                     selectedAnswer := None, showResult := False\<rparr>) = Asking)"
proof -
  have go: "\<not> isGameOver s"
    using assms(1) by (simp add: phase_of_def split: if_splits)
  have last: "currentQuestionIdx s = int (length qs) - 1 \<longrightarrow>
      nextQuestion s = Inr (s\<lparr>isGameOver := True\<rparr>)"
    using assms(2,3) by (simp add: nextQuestion_last)
  have last_phase: "phase_of (s\<lparr>isGameOver := True\<rparr>) = GameOver"
    using assms(4) by (simp add: phase_of_def)
  have more: "currentQuestionIdx s \<noteq> int (length qs) - 1 \<longrightarrow>
      nextQuestion s =
        Inr (s\<lparr>currentQuestionIdx := currentQuestionIdx s + 1,
               timeLeft := time_limit (qs ! nat (currentQuestionIdx s + 1)),
               selectedAnswer := None, showResult := False\<rparr>)"
    using assms(2,3,4,5) by (simp add: nextQuestion_advance)
  have more_phase: "phase_of (s\<lparr>currentQuestionIdx := currentQuestionIdx s + 1,
                     timeLeft := time_limit (qs ! nat (currentQuestionIdx s + 1)),
                     selectedAnswer := None, showResult := False\<rparr>) = Asking"
    using assms(4) go by (simp add: phase_of_def)
  show ?thesis using last last_phase more more_phase by blast
qed

theorem nextQuestion_from_result_witness:
  "phase_of result15 = Result \<and> phase_of result_last = Result
   \<and> nextQuestion result_last = Inr game_over \<and> phase_of game_over = GameOver
   \<and> nextQuestion result15 =
       Inr \<lparr>quiz = Some quiz2, currentQuestionIdx = 1, score = 1250, timeLeft = 20,
            selectedAnswer = None, showResult = False, isGameOver = False\<rparr>"
proof -
  have q: "quiz result15 = Some quiz2" "quiz result_last = Some quiz2"
    "questions quiz2 = Some [example_question ''B'' 20, example_question ''C'' 20]"
    by (simp_all add: example_defs)
  have p1: "phase_of result15 = Result" and p2: "phase_of result_last = Result"
    by (simp_all add: phase_of_def example_defs)
  have i1: "0 \<le> currentQuestionIdx result15"
    "currentQuestionIdx result15 < int (length [example_question ''B'' 20, example_question ''C'' 20])"
    by (simp_all add: example_defs)
  have i2: "0 \<le> currentQuestionIdx result_last"
    "currentQuestionIdx result_last < int (length [example_question ''B'' 20, example_question ''C'' 20])"
    by (simp_all add: example_defs)
  show ?thesis
    using nextQuestion_from_result [OF p1 q(1) q(3) i1]
      nextQuestion_from_result [OF p2 q(2) q(3) i2] p1 p2
    by (simp add: example_defs)
qed

subsection \<open>Fields the timer and the answer handler leave alone\<close>

lemma timer_effect_settled: "showResult s \<or> isGameOver s \<or> currentQuestionIdx s < 0 \<Longrightarrow> timer_effect s = s"
  by (auto simp: timer_effect_def timer_armed_def)

lemma tick_settled: "showResult s \<or> isGameOver s \<or> currentQuestionIdx s < 0 \<Longrightarrow> tick s = s"
  by (auto simp: tick_def timer_armed_def)

lemma timer_effect_fields:
  "currentQuestionIdx (timer_effect s) = currentQuestionIdx s"
  "isGameOver (timer_effect s) = isGameOver s"
  "quiz (timer_effect s) = quiz s"
  "timeLeft (timer_effect s) = timeLeft s"
  "score (timer_effect s) = score s"
  by (simp_all add: timer_effect_def handleAnswer_None)

lemma handleAnswer_fields:
  "currentQuestionIdx (handleAnswer s opt) = currentQuestionIdx s"
  "isGameOver (handleAnswer s opt) = isGameOver s"
  "quiz (handleAnswer s opt) = quiz s"
  "timeLeft (handleAnswer s opt) = timeLeft s"
  by (simp_all add: handleAnswer_unfold Let_def)

lemma phase_GameOver_iff: "phase_of s = GameOver \<longleftrightarrow> currentQuestionIdx s \<noteq> - 1 \<and> isGameOver s"
  by (simp add: phase_of_def)

text \<open>
  Claim C8. Game over is terminal: from a session in the game-over phase, the start
  handler, a tick, the answer handler and \<open>nextQuestion\<close> each end in the game-over
  phase again, and so does every operation of the state machine; each operation
  returns a session when the index is not negative.
\<close>

theorem game_over_terminal:
  assumes "phase_of s = GameOver"
  shows "phase_of (startQuiz s) = GameOver
       \<and> tick s = s
       \<and> phase_of (handleAnswer s opt) = GameOver
       \<and> (\<forall>s'. nextQuestion s = Inr s' \<longrightarrow> phase_of s' = GameOver)
       \<and> (0 \<le> currentQuestionIdx s \<longrightarrow> (\<exists>s'. step p s = Inr s'))
       \<and> (\<forall>s'. step p s = Inr s' \<longrightarrow> phase_of s' = GameOver)"
proof -
  from assms have idx: "currentQuestionIdx s \<noteq> - 1" and go: "isGameOver s"
    by (simp_all add: phase_GameOver_iff)
  have st: "phase_of (startQuiz s) = GameOver"
    using go by (simp add: phase_GameOver_iff startQuiz_def)
  have tk: "tick s = s"
    using go by (simp add: tick_settled)
  have ha: "phase_of (handleAnswer s opt) = GameOver" for opt
    using idx go by (simp add: phase_GameOver_iff handleAnswer_fields)
  have nq: "phase_of s' = GameOver" if "nextQuestion s = Inr s'" for s'
    using that idx go by (cases s rule: nextQuestion_cases) (auto simp: phase_GameOver_iff)
  have nq_total: "\<exists>s'. nextQuestion s = Inr s'" if "0 \<le> currentQuestionIdx s"
    using that by (cases s rule: nextQuestion_cases) auto
  have eff: "phase_of (timer_effect x) = phase_of x" if "phase_of x = GameOver" for x
    using that by (simp add: phase_GameOver_iff timer_effect_settled)
  have total: "0 \<le> currentQuestionIdx s \<longrightarrow> (\<exists>s'. step p s = Inr s')"
    using nq_total by (cases p) (auto simp: step_def split: sum.splits)
  have stp: "phase_of s' = GameOver" if "step p s = Inr s'" for s'
  proof (cases p)
    case Start
    then show ?thesis using that st eff by (auto simp: step_def)
  next
    case Tick
    then show ?thesis using that tk assms by (auto simp: step_def)
  next
    case (SubmitAnswer a)
    then show ?thesis using that ha eff by (auto simp: step_def)
  next
    case NextQuestion
    then show ?thesis using that nq eff by (auto simp: step_def split: sum.splits)
  qed
  show ?thesis using st tk ha nq total stp by blast
qed

theorem game_over_terminal_witness:
  "phase_of game_over = GameOver
   \<and> phase_of (startQuiz game_over) = GameOver
   \<and> tick game_over = game_over
   \<and> phase_of (handleAnswer game_over (Some ''B'')) = GameOver
   \<and> nextQuestion game_over = Inr game_over
   \<and> (\<exists>s'. step NextQuestion game_over = Inr s' \<and> phase_of s' = GameOver)"
proof -
  have h: "phase_of game_over = GameOver"
    by (simp add: phase_of_def example_defs)
  have i: "0 \<le> currentQuestionIdx game_over"
    by (simp add: example_defs)
  have n: "nextQuestion game_over = Inr game_over"
    by (simp add: nextQuestion_def example_defs)
  show ?thesis
    using game_over_terminal [OF h, of "Some ''B''" NextQuestion] h i n by auto
qed

section \<open>One answer per question\<close>

text \<open>
  Claim C5 says that a second answer to the same question is a no-op and that the
  selected answer cannot change before \<open>nextQuestion\<close>. The guard of \<open>handleAnswer\<close>
  tests the \<open>showResult\<close> of the render that created the handler, and the answered
  question card stays on the screen during its exit animation. After the answer B with
  15 of 20 seconds left (1250 points), a second click on that card is honoured: on B
  it adds the 1250 points again, on A it replaces the selected answer.
\<close>

theorem second_answer_is_honoured:
  "phase_of asking15 = Asking
   \<and> handleAnswer asking15 (Some ''B'') = result15
   \<and> phase_of result15 = Result
   \<and> score result15 = 1250 \<and> selectedAnswer result15 = Some ''B''
   \<and> handleAnswer_from asking15 result15 (Some ''B'') = result15\<lparr>score := 2500\<rparr>
   \<and> handleAnswer_from asking15 result15 (Some ''A'') = result15\<lparr>selectedAnswer := Some ''A''\<rparr>
   \<and> handleAnswer_from asking15 result15 None = result15\<lparr>selectedAnswer := None\<rparr>"
proof -
  have q: "question_at asking15 (currentQuestionIdx asking15) = Some (example_question ''B'' 20)"
    by (simp add: question_at_def js_index_def example_defs)
  have p: "points (timeLeft asking15) (Some (example_question ''B'' 20)) = 1250"
    by (simp add: points_limit_20 time_limit_or_20_def asking15_def example_question_def)
  have c: "correct_option (example_question ''B'' 20) = ''B''"
    by (simp add: example_question_def)
  have f: "\<not> showResult asking15" by (simp add: asking15_def)
  have first: "handleAnswer asking15 (Some ''B'') = result15"
    using q p c f by (simp add: handleAnswer_fresh strict_eq_Some asking15_def result15_def)
  have again: "handleAnswer_from asking15 result15 (Some ''B'') = result15\<lparr>score := 2500\<rparr>"
    using q p c f by (simp add: handleAnswer_from_def strict_eq_Some Let_def result15_def)
  have other: "handleAnswer_from asking15 result15 (Some ''A'') = result15\<lparr>selectedAnswer := Some ''A''\<rparr>"
    using q c f by (simp add: handleAnswer_from_def strict_eq_Some Let_def result15_def)
  have none: "handleAnswer_from asking15 result15 None = result15\<lparr>selectedAnswer := None\<rparr>"
    using q f by (simp add: handleAnswer_from_def strict_eq_None Let_def result15_def)
  show ?thesis
    using first again other none by (simp add: phase_of_def asking15_def result15_def)
qed

section \<open>The countdown\<close>

lemma tick_above_one:
  assumes "timer_armed s" and "1 < timeLeft s"
  shows "tick s = s\<lparr>timeLeft := timeLeft s - 1\<rparr>"
  using assms by (simp add: tick_def timer_effect_def timer_armed_def)

lemma tick_at_one:
  assumes "timer_armed s" and "timeLeft s = 1"
  shows "tick s = handleAnswer (s\<lparr>timeLeft := 0\<rparr>) None"
    and "tick s = s\<lparr>timeLeft := 0, selectedAnswer := None, showResult := True\<rparr>"
  using assms by (simp_all add: tick_def timer_effect_def timer_armed_def handleAnswer_None)

lemma ticks_before_zero:
  assumes "timer_armed s"
  shows "int k < timeLeft s \<Longrightarrow> (tick ^^ k) s = s\<lparr>timeLeft := timeLeft s - int k\<rparr>"
proof (induction k)
  case 0
  then show ?case by simp
next
  case (Suc k)
  let ?m = "s\<lparr>timeLeft := timeLeft s - int k\<rparr>"
  from Suc have mid: "(tick ^^ k) s = ?m" by simp
  have "timer_armed ?m" "1 < timeLeft ?m"
    using assms Suc.prems by (simp_all add: timer_armed_def)
  then have "tick ?m = ?m\<lparr>timeLeft := timeLeft ?m - 1\<rparr>"
    by (rule tick_above_one)
  with mid show ?case by (simp add: algebra_simps)
qed

lemma ticks_to_zero:
  assumes "timer_armed s"
  shows "(tick ^^ nat (timeLeft s)) s
           = s\<lparr>timeLeft := 0, selectedAnswer := None, showResult := True\<rparr>"
proof -
  from assms have pos: "0 < timeLeft s" by (simp add: timer_armed_def)
  then obtain k where k: "nat (timeLeft s) = Suc k"
    by (cases "nat (timeLeft s)") auto
  then have tl: "timeLeft s = int k + 1" using pos by linarith
  let ?m = "s\<lparr>timeLeft := timeLeft s - int k\<rparr>"
  have mid: "(tick ^^ k) s = ?m"
    using assms tl by (intro ticks_before_zero) simp_all
  have "timer_armed ?m" "timeLeft ?m = 1"
    using assms tl by (simp_all add: timer_armed_def)
  then have "tick ?m = ?m\<lparr>timeLeft := 0, selectedAnswer := None, showResult := True\<rparr>"
    by (rule tick_at_one(2))
  with mid k show ?thesis by simp
qed

lemma ticks_settled: "showResult s \<Longrightarrow> (tick ^^ k) s = s"
  by (induction k) (simp_all add: tick_settled)

lemma ticks_after_zero:
  assumes "timer_armed s" and "timeLeft s \<le> int k"
  shows "(tick ^^ k) s = s\<lparr>timeLeft := 0, selectedAnswer := None, showResult := True\<rparr>"
proof -
  let ?n = "nat (timeLeft s)"
  from assms have "k = (k - ?n) + ?n" by linarith
  then have "(tick ^^ k) s = (tick ^^ (k - ?n)) ((tick ^^ ?n) s)"
    by (metis funpow_add o_apply)
  also have "\<dots> = (tick ^^ (k - ?n)) (s\<lparr>timeLeft := 0, selectedAnswer := None, showResult := True\<rparr>)"
    using assms(1) by (simp add: ticks_to_zero)
  also have "\<dots> = s\<lparr>timeLeft := 0, selectedAnswer := None, showResult := True\<rparr>"
    by (rule ticks_settled) simp
  finally show ?thesis .
qed

lemma Asking_armed:
  "phase_of s = Asking \<Longrightarrow> 0 \<le> currentQuestionIdx s \<Longrightarrow> 0 < timeLeft s \<Longrightarrow> timer_armed s"
  by (simp add: phase_of_def timer_armed_def split: if_splits)

text \<open>
  Claim C4. In the question phase with time left, a tick takes exactly one second off;
  the tick that reaches zero is the submission of the empty answer (no option
  selected, score unchanged, result card shown); repeated ticks bring the time left to
  exactly zero and never below it.
\<close>

theorem tick_countdown:
  assumes "phase_of s = Asking" and "0 \<le> currentQuestionIdx s" and "0 < timeLeft s"
  shows "timeLeft (tick s) = timeLeft s - 1
       \<and> (1 < timeLeft s \<longrightarrow> tick s = s\<lparr>timeLeft := timeLeft s - 1\<rparr>)
       \<and> (timeLeft s = 1 \<longrightarrow>
            tick s = handleAnswer (s\<lparr>timeLeft := 0\<rparr>) None
            \<and> selectedAnswer (tick s) = None \<and> score (tick s) = score s
            \<and> phase_of (tick s) = Result)
       \<and> (\<forall>k. timeLeft ((tick ^^ k) s) = max 0 (timeLeft s - int k))
       \<and> (tick ^^ nat (timeLeft s)) s
            = s\<lparr>timeLeft := 0, selectedAnswer := None, showResult := True\<rparr>"
proof -
  have armed: "timer_armed s"
    using assms by (rule Asking_armed)
  have idx: "currentQuestionIdx s \<noteq> - 1" and go: "\<not> isGameOver s"
    using assms(1) by (simp_all add: phase_of_def split: if_splits)
  have above: "1 < timeLeft s \<longrightarrow> tick s = s\<lparr>timeLeft := timeLeft s - 1\<rparr>"
    using armed by (simp add: tick_above_one)
  have at_one: "timeLeft s = 1 \<longrightarrow>
            tick s = handleAnswer (s\<lparr>timeLeft := 0\<rparr>) None
            \<and> selectedAnswer (tick s) = None \<and> score (tick s) = score s
            \<and> phase_of (tick s) = Result"
  proof (intro impI)
    assume one: "timeLeft s = 1"
    have e1: "tick s = handleAnswer (s\<lparr>timeLeft := 0\<rparr>) None"
      using armed one by (rule tick_at_one(1))
    have e2: "tick s = s\<lparr>timeLeft := 0, selectedAnswer := None, showResult := True\<rparr>"
      using armed one by (rule tick_at_one(2))
    have "selectedAnswer (tick s) = None \<and> score (tick s) = score s \<and> phase_of (tick s) = Result"
      using idx go by (simp add: e2 phase_of_def)
    with e1 show "tick s = handleAnswer (s\<lparr>timeLeft := 0\<rparr>) None
        \<and> selectedAnswer (tick s) = None \<and> score (tick s) = score s
        \<and> phase_of (tick s) = Result"
      by blast
  qed
  have dec: "timeLeft (tick s) = timeLeft s - 1"
  proof (cases "timeLeft s = 1")
    case True
    then show ?thesis using armed tick_at_one(2) [of s] by simp
  next
    case False
    with assms(3) have "1 < timeLeft s" by simp
    then show ?thesis using above by simp
  qed
  have all: "timeLeft ((tick ^^ k) s) = max 0 (timeLeft s - int k)" for k
  proof (cases "int k < timeLeft s")
    case True
    then show ?thesis using armed by (simp add: ticks_before_zero)
  next
    case False
    then show ?thesis using armed by (simp add: ticks_after_zero)
  qed
  have zero: "(tick ^^ nat (timeLeft s)) s
            = s\<lparr>timeLeft := 0, selectedAnswer := None, showResult := True\<rparr>"
    using armed by (rule ticks_to_zero)
  show ?thesis using dec above at_one all zero by blast
qed

theorem tick_countdown_witness:
  "phase_of asking15 = Asking \<and> 0 \<le> currentQuestionIdx asking15 \<and> 0 < timeLeft asking15
   \<and> timeLeft (tick asking15) = 14
   \<and> tick asking15 = asking15\<lparr>timeLeft := 14\<rparr>
   \<and> timeLeft ((tick ^^ 15) asking15) = 0
   \<and> timeLeft ((tick ^^ 40) asking15) = 0
   \<and> (tick ^^ 15) asking15 = asking15\<lparr>timeLeft := 0, selectedAnswer := None, showResult := True\<rparr>
   \<and> phase_of asking1 = Asking \<and> timeLeft asking1 = 1
   \<and> tick asking1 = handleAnswer (asking1\<lparr>timeLeft := 0\<rparr>) None
   \<and> selectedAnswer (tick asking1) = None \<and> score (tick asking1) = score asking1
   \<and> phase_of (tick asking1) = Result"
proof -
  have h: "phase_of asking15 = Asking" "0 \<le> currentQuestionIdx asking15" "0 < timeLeft asking15"
    by (simp_all add: phase_of_def asking15_def)
  have h1: "phase_of asking1 = Asking" "0 \<le> currentQuestionIdx asking1" "0 < timeLeft asking1"
    by (simp_all add: phase_of_def asking1_def asking15_def)
  have v: "timeLeft asking15 = 15" "timeLeft asking1 = 1"
    by (simp_all add: asking1_def asking15_def)
  from tick_countdown [OF h] have
    a: "timeLeft (tick asking15) = timeLeft asking15 - 1"
    and b: "1 < timeLeft asking15 \<longrightarrow> tick asking15 = asking15\<lparr>timeLeft := timeLeft asking15 - 1\<rparr>"
    and c: "\<forall>k. timeLeft ((tick ^^ k) asking15) = max 0 (timeLeft asking15 - int k)"
    and d: "(tick ^^ nat (timeLeft asking15)) asking15
              = asking15\<lparr>timeLeft := 0, selectedAnswer := None, showResult := True\<rparr>"
    by blast+
  from c have c15: "timeLeft ((tick ^^ 15) asking15) = max 0 (timeLeft asking15 - int 15)"
    and c40: "timeLeft ((tick ^^ 40) asking15) = max 0 (timeLeft asking15 - int 40)"
    by blast+
  from tick_countdown [OF h1] have
    e: "timeLeft asking1 = 1 \<longrightarrow>
          tick asking1 = handleAnswer (asking1\<lparr>timeLeft := 0\<rparr>) None
          \<and> selectedAnswer (tick asking1) = None \<and> score (tick asking1) = score asking1
          \<and> phase_of (tick asking1) = Result"
    by blast
  have first: "phase_of asking15 = Asking \<and> 0 \<le> currentQuestionIdx asking15 \<and> 0 < timeLeft asking15
      \<and> timeLeft (tick asking15) = 14
      \<and> tick asking15 = asking15\<lparr>timeLeft := 14\<rparr>
      \<and> timeLeft ((tick ^^ 15) asking15) = 0
      \<and> timeLeft ((tick ^^ 40) asking15) = 0
      \<and> (tick ^^ 15) asking15 = asking15\<lparr>timeLeft := 0, selectedAnswer := None, showResult := True\<rparr>"
    using h a b c15 c40 d by (simp add: v)
  have last: "tick asking1 = handleAnswer (asking1\<lparr>timeLeft := 0\<rparr>) None
      \<and> selectedAnswer (tick asking1) = None \<and> score (tick asking1) = score asking1
      \<and> phase_of (tick asking1) = Result"
    using e v(2) by blast
  show ?thesis using first h1(1) v(2) last by blast
qed

section \<open>The score along a run\<close>

subsection \<open>The invariant is kept by every handler\<close>

lemma question_at_update:
  "question_at (s\<lparr>currentQuestionIdx := i\<rparr>) = question_at s"
  "question_at (s\<lparr>timeLeft := t\<rparr>) = question_at s"
  "question_at (s\<lparr>score := n\<rparr>) = question_at s"
  "question_at (s\<lparr>selectedAnswer := a\<rparr>) = question_at s"
  "question_at (s\<lparr>showResult := b\<rparr>) = question_at s"
  "question_at (s\<lparr>isGameOver := b\<rparr>) = question_at s"
  by (simp_all add: question_at_def fun_eq_iff)

lemma question_at_negative: "i < 0 \<Longrightarrow> question_at s i = None"
  by (simp add: question_at_def js_index_def split: option.splits)

lemma reachable_inv_initial: "reachable_inv (initial qz)"
  by (simp add: reachable_inv_def time_in_range_def initial_def question_at_negative)

lemma reachable_inv_startQuiz:
  assumes "reachable_inv s"
  shows "reachable_inv (startQuiz s)"
  using assms
  by (simp add: reachable_inv_def time_in_range_def startQuiz_def question_at_update
      split: option.splits)

lemma handleAnswer_score:
  assumes "time_in_range s"
  shows "score s \<le> score (handleAnswer s opt)"
    and "score s < score (handleAnswer s opt) \<Longrightarrow>
           \<exists>c q. opt = Some c \<and> question_at s (currentQuestionIdx s) = Some q
                 \<and> correct_option q = c"
proof -
  let ?q = "question_at s (currentQuestionIdx s)"
  show "score s \<le> score (handleAnswer s opt)"
  proof (cases "\<not> showResult s \<and> strict_eq opt (map_option correct_option ?q)")
    case True
    then obtain q where q: "?q = Some q"
      by (cases ?q) (simp_all add: strict_eq_None)
    with assms have "500 \<le> points (timeLeft s) ?q"
      by (intro points_in_range) (simp add: time_in_range_def)
    with True show ?thesis by (simp add: handleAnswer_fresh)
  next
    case False
    then show ?thesis by (auto simp: handleAnswer_unfold Let_def)
  qed
  show "\<exists>c q. opt = Some c \<and> ?q = Some q \<and> correct_option q = c"
    if "score s < score (handleAnswer s opt)"
  proof -
    from that have fresh: "\<not> showResult s"
      and eq: "strict_eq opt (map_option correct_option ?q)"
      by (auto simp: handleAnswer_unfold Let_def split: if_splits)
    from eq obtain q where q: "?q = Some q"
      by (cases ?q) (simp_all add: strict_eq_None)
    with eq have "opt = Some (correct_option q)"
      by (simp add: strict_eq_Some)
    with q show ?thesis by simp
  qed
qed

lemma question_at_same_quiz: "quiz s' = quiz s \<Longrightarrow> question_at s' = question_at s"
  by (simp add: question_at_def fun_eq_iff)

lemma time_in_range_same:
  assumes "quiz s' = quiz s" and "currentQuestionIdx s' = currentQuestionIdx s"
    and "timeLeft s' = timeLeft s"
  shows "time_in_range s' = time_in_range s"
proof -
  have "question_at s' = question_at s"
    using assms(1) by (rule question_at_same_quiz)
  then show ?thesis
    unfolding time_in_range_def using assms(2,3) by (simp split: option.splits)
qed

lemma time_in_range_handleAnswer: "time_in_range s \<Longrightarrow> time_in_range (handleAnswer s opt)"
proof -
  have "time_in_range (handleAnswer s opt) = time_in_range s"
    by (rule time_in_range_same) (simp_all add: handleAnswer_fields)
  then show "time_in_range s \<Longrightarrow> time_in_range (handleAnswer s opt)" by simp
qed

lemma reachable_inv_handleAnswer:
  assumes "reachable_inv s"
  shows "reachable_inv (handleAnswer s opt)"
  using assms handleAnswer_score(1) [of s opt]
  by (simp add: reachable_inv_def time_in_range_handleAnswer handleAnswer_fields)

lemma reachable_inv_timer_effect:
  assumes "reachable_inv s"
  shows "reachable_inv (timer_effect s)"
  using assms by (simp add: timer_effect_def reachable_inv_handleAnswer)

lemma reachable_inv_tick:
  assumes "reachable_inv s"
  shows "reachable_inv (tick s)"
proof (cases "timer_armed s")
  case False
  with assms show ?thesis by (simp add: tick_def)
next
  case True
  then have pos: "0 < timeLeft s" by (simp add: timer_armed_def)
  have "reachable_inv (s\<lparr>timeLeft := timeLeft s - 1\<rparr>)"
    using assms pos
    by (auto simp: reachable_inv_def time_in_range_def question_at_update split: option.splits)
  then show ?thesis using True by (simp add: tick_def reachable_inv_timer_effect)
qed

lemma reachable_inv_nextQuestion:
  assumes "reachable_inv s"
  shows "\<exists>s'. nextQuestion s = Inr s' \<and> reachable_inv s' \<and> score s' = score s"
proof (cases s rule: nextQuestion_cases)
  case noop
  with assms show ?thesis by simp
next
  case over
  have "time_in_range (s\<lparr>isGameOver := True\<rparr>) = time_in_range s"
    by (rule time_in_range_same) simp_all
  with assms over show ?thesis
    by (simp add: reachable_inv_def)
next
  case (advance q)
  have "(0 \<le> time_limit q \<and> time_limit q \<le> time_limit_or_20 (Some q))
        \<or> time_limit q = time_limit_or_20 (Some q)"
    by (simp add: time_limit_or_20_def)
  with assms advance show ?thesis
    by (simp add: reachable_inv_def time_in_range_def question_at_update)
next
  case fail
  with assms show ?thesis by (simp add: reachable_inv_def)
qed

subsection \<open>One operation\<close>

lemma step_score:
  assumes "reachable_inv s"
  shows "\<exists>s'. step p s = Inr s' \<and> reachable_inv s' \<and> score s \<le> score s'
           \<and> (score s < score s' \<longrightarrow>
                (\<exists>c q. p = SubmitAnswer (Some c)
                      \<and> question_at s (currentQuestionIdx s) = Some q \<and> correct_option q = c))"
proof (cases p)
  case Start
  have "reachable_inv (timer_effect (startQuiz s))"
    using assms by (intro reachable_inv_timer_effect reachable_inv_startQuiz)
  moreover have "score (timer_effect (startQuiz s)) = score s"
    by (simp add: timer_effect_fields startQuiz_def)
  ultimately show ?thesis using Start by (simp add: step_def)
next
  case Tick
  have "score (tick s) = score s"
    by (simp add: tick_def timer_effect_fields)
  with Tick assms show ?thesis by (simp add: step_def reachable_inv_tick)
next
  case (SubmitAnswer opt)
  from assms have range: "time_in_range s" by (simp add: reachable_inv_def)
  have "reachable_inv (timer_effect (handleAnswer s opt))"
    using assms by (intro reachable_inv_timer_effect reachable_inv_handleAnswer)
  moreover have "score (timer_effect (handleAnswer s opt)) = score (handleAnswer s opt)"
    by (simp add: timer_effect_fields)
  ultimately show ?thesis
    using SubmitAnswer handleAnswer_score [OF range, of opt] by (auto simp: step_def)
next
  case NextQuestion
  from reachable_inv_nextQuestion [OF assms] obtain s1
    where s1: "nextQuestion s = Inr s1" "reachable_inv s1" "score s1 = score s"
    by blast
  then have "reachable_inv (timer_effect s1)" "score (timer_effect s1) = score s"
    by (simp_all add: reachable_inv_timer_effect timer_effect_fields)
  with NextQuestion s1(1) show ?thesis by (simp add: step_def)
qed

subsection \<open>Many operations\<close>

lemma run_score:
  assumes "reachable_inv s"
  shows "\<exists>s'. run ps s = Inr s' \<and> reachable_inv s' \<and> score s \<le> score s'"
  using assms
proof (induction ps arbitrary: s)
  case Nil
  then show ?case by simp
next
  case (Cons p ps)
  from step_score [OF Cons.prems, of p] obtain s1
    where s1: "step p s = Inr s1" "reachable_inv s1" "score s \<le> score s1"
    by blast
  from Cons.IH [OF s1(2)] obtain s' where "run ps s1 = Inr s'" "reachable_inv s'"
      "score s1 \<le> score s'"
    by blast
  with s1 show ?case by auto
qed

lemma run_append:
  "run (ps @ qs) s = (case run ps s of Inl e \<Rightarrow> Inl e | Inr s' \<Rightarrow> run qs s')"
  by (induction ps arbitrary: s) (simp_all split: sum.splits)

text \<open>
  Claim C6. After any sequence of operations from the initial lobby session, of any
  quiz with integer time limits, the run has produced a session and its score is not
  negative; the score after any longer sequence is at least as large; and an operation
  that makes the score strictly larger is the submission of an option equal to the
  correct option of the current question.
\<close>

theorem score_monotone:
  "\<exists>s. run ps (initial qz) = Inr s \<and> 0 \<le> score s
      \<and> (\<exists>t. run (ps @ rest) (initial qz) = Inr t \<and> score s \<le> score t)
      \<and> (\<exists>s'. run (ps @ [p]) (initial qz) = Inr s'
            \<and> (score s < score s' \<longrightarrow>
                 (\<exists>c q. p = SubmitAnswer (Some c)
                       \<and> question_at s (currentQuestionIdx s) = Some q
                       \<and> correct_option q = c)))"
proof -
  from run_score [OF reachable_inv_initial, of ps qz] obtain s
    where s: "run ps (initial qz) = Inr s" "reachable_inv s"
    by blast
  then have nonneg: "0 \<le> score s" by (simp add: reachable_inv_def)
  from run_score [OF s(2), of rest] obtain t where t: "run rest s = Inr t" "score s \<le> score t"
    by blast
  from step_score [OF s(2), of p] obtain s'
    where s': "step p s = Inr s'"
      "score s < score s' \<longrightarrow>
         (\<exists>c q. p = SubmitAnswer (Some c)
               \<and> question_at s (currentQuestionIdx s) = Some q \<and> correct_option q = c)"
    by blast
  have "run (ps @ rest) (initial qz) = Inr t"
    using s(1) t(1) by (simp add: run_append)
  moreover have "run (ps @ [p]) (initial qz) = Inr s'"
    using s(1) s'(1) by (simp add: run_append)
  ultimately show ?thesis using s(1) nonneg t(2) s'(2) by blast
qed

lemma scenario_before_answer:
  "run [Start, Tick, Tick, Tick, Tick, Tick] (initial (Some quiz2)) = Inr asking15"
  by (simp add: step_def example_defs handler_defs double_defs Let_def)

theorem score_monotone_witness:
  "run [Start, Tick, Tick, Tick, Tick, Tick] (initial (Some quiz2)) = Inr asking15
   \<and> run ([Start, Tick, Tick, Tick, Tick, Tick] @ [SubmitAnswer (Some ''B'')])
         (initial (Some quiz2)) = Inr result15
   \<and> score asking15 < score result15
   \<and> (\<exists>q. question_at asking15 (currentQuestionIdx asking15) = Some q
         \<and> correct_option q = ''B'')"
proof -
  have r: "run ([Start, Tick, Tick, Tick, Tick, Tick] @ [SubmitAnswer (Some ''B'')])
         (initial (Some quiz2)) = Inr result15"
    using scenario_first_answer by simp
  have lt: "score asking15 < score result15"
    by (simp add: asking15_def result15_def)
  from score_monotone [of "[Start, Tick, Tick, Tick, Tick, Tick]" "Some quiz2" "[]"
      "SubmitAnswer (Some ''B'')"]
  have "\<exists>c q. SubmitAnswer (Some ''B'') = SubmitAnswer (Some c)
          \<and> question_at asking15 (currentQuestionIdx asking15) = Some q
          \<and> correct_option q = c"
    unfolding scenario_before_answer r using lt by auto
  then show ?thesis using scenario_before_answer r lt by auto
qed

section \<open>Starting a quiz without questions\<close>

text \<open>
  Claim C3 says that starting a loaded quiz without questions is refused and leaves
  the session in the lobby. \<open>startQuiz\<close> has no such test: on the empty quiz it sets
  the index to 0 and the time left to the default 20, the session is in the question
  phase without a question, and the render of that state raises a TypeError.
\<close>

theorem start_empty_quiz_crashes:
  "questions empty_quiz = Some []
   \<and> phase_of (initial (Some empty_quiz)) = Lobby
   \<and> render (initial (Some empty_quiz)) = Inr LobbyView
   \<and> startQuiz (initial (Some empty_quiz))
        = \<lparr>quiz = Some empty_quiz, currentQuestionIdx = 0, score = 0, timeLeft = 20,
            selectedAnswer = None, showResult = False, isGameOver = False\<rparr>
   \<and> startQuiz (initial (Some empty_quiz)) \<noteq> initial (Some empty_quiz)
   \<and> phase_of (startQuiz (initial (Some empty_quiz))) = Asking
   \<and> render (startQuiz (initial (Some empty_quiz))) = Inl TypeError"
proof -
  have e: "startQuiz (initial (Some empty_quiz))
             = \<lparr>quiz = Some empty_quiz, currentQuestionIdx = 0, score = 0, timeLeft = 20,
                 selectedAnswer = None, showResult = False, isGameOver = False\<rparr>"
    by (simp add: startQuiz_def question_at_def js_index_def time_limit_or_20_def example_defs)
  have r: "render \<lparr>quiz = Some empty_quiz, currentQuestionIdx = 0, score = 0, timeLeft = 20,
                 selectedAnswer = None, showResult = False, isGameOver = False\<rparr> = Inl TypeError"
    by (simp add: render_def question_at_def js_index_def example_defs)
  have l: "render (initial (Some empty_quiz)) = Inr LobbyView"
    by (simp add: render_def initial_def)
  show ?thesis
    unfolding e using r l by (simp add: phase_of_def example_defs)
qed

section \<open>An answer outside the question phase\<close>

text \<open>
  Claim C2 says that an operation outside its phase changes nothing. An answer in the
  result phase does: the question card of the previous render is still on the screen
  while it fades out, and its buttons call the handler of that render, whose
  \<open>showResult\<close> is false. On the result card of the first question of the scenario
  such a click on B raises the score from 1250 to 2500, and a click on C replaces the
  selected answer.
\<close>

theorem answer_outside_question_phase:
  "handleAnswer_from asking15 asking15 (Some ''B'') = result15
   \<and> phase_of result15 = Result
   \<and> handleAnswer_from asking15 result15 (Some ''B'') \<noteq> result15
   \<and> score (handleAnswer_from asking15 result15 (Some ''B'')) = 2500
   \<and> handleAnswer_from asking15 result15 (Some ''C'') \<noteq> result15
   \<and> selectedAnswer (handleAnswer_from asking15 result15 (Some ''C'')) = Some ''C''
   \<and> phase_of (handleAnswer_from asking15 result15 (Some ''C'')) = Result"
proof -
  have q: "question_at asking15 (currentQuestionIdx asking15) = Some (example_question ''B'' 20)"
    by (simp add: question_at_def js_index_def example_defs)
  have p: "points (timeLeft asking15) (Some (example_question ''B'' 20)) = 1250"
    by (simp add: points_limit_20 time_limit_or_20_def asking15_def example_question_def)
  have c: "correct_option (example_question ''B'' 20) = ''B''"
    by (simp add: example_question_def)
  have f: "\<not> showResult asking15" by (simp add: asking15_def)
  have again: "handleAnswer_from asking15 result15 (Some ''B'') = result15\<lparr>score := 2500\<rparr>"
    using q p c f by (simp add: handleAnswer_from_def strict_eq_Some Let_def result15_def)
  have other: "handleAnswer_from asking15 result15 (Some ''C'') = result15\<lparr>selectedAnswer := Some ''C''\<rparr>"
    using q c f by (simp add: handleAnswer_from_def strict_eq_Some Let_def result15_def)
  have first: "handleAnswer_from asking15 asking15 (Some ''B'') = result15"
    using q p c f
    by (simp add: handleAnswer_from_def strict_eq_Some Let_def asking15_def result15_def)
  show ?thesis
    unfolding again other first by (simp add: phase_of_def result15_def)
qed

section \<open>Time limits that are not positive\<close>

text \<open>
  Claim C9 says that the player uses a zero or negative time limit as it is, with no
  defensive handling, and that the server stores positive time limits only. For a
  first question with time limit 0 the start handler sets 20 seconds and the scoring
  formula divides by 20; and the creation handler binds the time limit \<open>-5\<close> of a
  request to the insert statement unchanged.
\<close>

theorem time_limit_handling_counterexample:
  "time_limit (example_question ''A'' 0) = 0
   \<and> question_at (initial (Some zero_limit_quiz)) 0 = Some (example_question ''A'' 0)
   \<and> timeLeft (startQuiz (initial (Some zero_limit_quiz))) = 20
   \<and> points 10 (Some (example_question ''A'' 0)) = 1000
   \<and> body_time_limit negative_body = JNumber (- 5)
   \<and> insert_arguments 1 negative_body ! 7 = JNumber (- 5)"
proof -
  have p: "points 10 (Some (example_question ''A'' 0)) = 1000"
    by (simp add: points_limit_20 time_limit_or_20_def example_question_def)
  show ?thesis
    using p
    by (simp add: startQuiz_def question_at_def js_index_def time_limit_or_20_def
        insert_arguments_def js_or_def falsy_def example_defs)
qed

text \<open>
  Claim C9, amended. The start handler and the scoring formula replace a time limit of
  zero by 20 and use every other time limit, a negative one included, as it is;
  \<open>nextQuestion\<close> copies the time limit of the new question unchanged in every case.
  The creation handler checks nothing: it binds 20 to the insert statement when the
  \<open>time_limit\<close> of the request is falsy (absent, \<open>null\<close>, \<open>false\<close>, \<open>0\<close> or the empty
  string) and the value of the request itself otherwise, whatever its sign or type; the
  seed path stores 20 for every question.
\<close>

theorem time_limit_handling:
  "(question_at s 0 = Some q \<longrightarrow>
      timeLeft (startQuiz s) = (if time_limit q = 0 then 20 else time_limit q))
   \<and> points t (Some q)
       = Math_round (js_mul 1000 (js_div (of_int t)
           (of_int (if time_limit q = 0 then 20 else time_limit q)))) + 500
   \<and> (quiz s = Some qz \<and> questions qz = Some qs \<and> - 1 \<le> currentQuestionIdx s
        \<and> currentQuestionIdx s < int (length qs) - 1 \<longrightarrow>
        (\<exists>s'. nextQuestion s = Inr s'
            \<and> timeLeft s' = time_limit (qs ! nat (currentQuestionIdx s + 1))))
   \<and> (falsy (body_time_limit b) \<longrightarrow> insert_arguments i b ! 7 = JNumber 20)
   \<and> (\<not> falsy (body_time_limit b) \<longrightarrow> insert_arguments i b ! 7 = body_time_limit b)
   \<and> time_limit (seeded_question j r) = 20"
proof -
  have st: "question_at s 0 = Some q \<longrightarrow>
      timeLeft (startQuiz s) = (if time_limit q = 0 then 20 else time_limit q)"
    by (simp add: startQuiz_def time_limit_or_20_def)
  have pt: "points t (Some q)
       = Math_round (js_mul 1000 (js_div (of_int t)
           (of_int (if time_limit q = 0 then 20 else time_limit q)))) + 500"
    by (simp add: points_def time_limit_or_20_def)
  have nq: "quiz s = Some qz \<and> questions qz = Some qs \<and> - 1 \<le> currentQuestionIdx s
        \<and> currentQuestionIdx s < int (length qs) - 1 \<longrightarrow>
        (\<exists>s'. nextQuestion s = Inr s'
            \<and> timeLeft s' = time_limit (qs ! nat (currentQuestionIdx s + 1)))"
    by (auto simp: nextQuestion_advance)
  have cr: "falsy (body_time_limit b) \<longrightarrow> insert_arguments i b ! 7 = JNumber 20"
    "\<not> falsy (body_time_limit b) \<longrightarrow> insert_arguments i b ! 7 = body_time_limit b"
    by (simp_all add: insert_arguments_def js_or_def)
  have sd: "time_limit (seeded_question j r) = 20"
    by (simp add: seeded_question_def split: prod.splits)
  show ?thesis using st pt nq cr sd by blast
qed

theorem time_limit_handling_witness:
  "question_at (initial (Some zero_limit_quiz)) 0 = Some (example_question ''A'' 0)
   \<and> timeLeft (startQuiz (initial (Some zero_limit_quiz))) = 20
   \<and> quiz asking15 = Some quiz2
   \<and> questions quiz2 = Some [example_question ''B'' 20, example_question ''C'' 20]
   \<and> (\<exists>s'. nextQuestion asking15 = Inr s' \<and> timeLeft s' = 20)
   \<and> \<not> falsy (body_time_limit negative_body)
   \<and> insert_arguments 7 negative_body ! 7 = JNumber (- 5)
   \<and> \<not> falsy (body_time_limit (example_body (JString ''0'')))
   \<and> insert_arguments 7 (example_body (JString ''0'')) ! 7 = JString ''0''
   \<and> falsy (body_time_limit (example_body JUndefined))
   \<and> insert_arguments 7 (example_body JUndefined) ! 7 = JNumber 20"
proof -
  have q: "question_at (initial (Some zero_limit_quiz)) 0 = Some (example_question ''A'' 0)"
    by (simp add: question_at_def js_index_def example_defs)
  have z: "time_limit (example_question ''A'' 0) = 0"
    by (simp add: example_question_def)
  have a: "quiz asking15 = Some quiz2"
    "questions quiz2 = Some [example_question ''B'' 20, example_question ''C'' 20]"
    "- 1 \<le> currentQuestionIdx asking15"
    "currentQuestionIdx asking15
       < int (length [example_question ''B'' 20, example_question ''C'' 20]) - 1"
    by (simp_all add: example_defs)
  have nx: "time_limit ([example_question ''B'' 20, example_question ''C'' 20]
              ! nat (currentQuestionIdx asking15 + 1)) = 20"
    by (simp add: example_defs)
  have b: "\<not> falsy (body_time_limit negative_body)" "body_time_limit negative_body = JNumber (- 5)"
    "\<not> falsy (body_time_limit (example_body (JString ''0'')))"
    "body_time_limit (example_body (JString ''0'')) = JString ''0''"
    "falsy (body_time_limit (example_body JUndefined))"
    by (simp_all add: falsy_def negative_body_def example_body_def)
  note t = time_limit_handling [of "initial (Some zero_limit_quiz)" "example_question ''A'' 0"
      0 quiz2 "[example_question ''B'' 20, example_question ''C'' 20]" negative_body 7 1
      "(''Q'', ''a'', ''b'', ''c'', ''d'', ''A'')"]
  note u = time_limit_handling [of asking15 "example_question ''A'' 0"
      0 quiz2 "[example_question ''B'' 20, example_question ''C'' 20]"
      "example_body (JString ''0'')" 7 1 "(''Q'', ''a'', ''b'', ''c'', ''d'', ''A'')"]
  note w = time_limit_handling [of asking15 "example_question ''A'' 0"
      0 quiz2 "[example_question ''B'' 20, example_question ''C'' 20]"
      "example_body JUndefined" 7 1 "(''Q'', ''a'', ''b'', ''c'', ''d'', ''A'')"]
  from t q z have one: "timeLeft (startQuiz (initial (Some zero_limit_quiz))) = 20"
    by simp
  from u a nx have two: "\<exists>s'. nextQuestion asking15 = Inr s' \<and> timeLeft s' = 20"
    by simp
  from t b(1,2) have three: "insert_arguments 7 negative_body ! 7 = JNumber (- 5)"
    by simp
  from u b(3,4) have four: "insert_arguments 7 (example_body (JString ''0'')) ! 7 = JString ''0''"
    by simp
  from w b(5) have five: "insert_arguments 7 (example_body JUndefined) ! 7 = JNumber 20"
    by blast
  show ?thesis using q one a(1,2) two b(1,3,5) three four five by blast
qed

end
